theory Spec2Isabelle
  imports Main "HOL-Library.Sublist"
begin

section \<open>Python strings\<close>

text \<open>
  The module \<^verbatim>\<open>job_scraper.py\<close> works on Python \<^verbatim>\<open>str\<close> values. A \<^verbatim>\<open>str\<close> is
  modelled as a \<^typ>\<open>string\<close>, one \<^typ>\<open>char\<close> per code point, so the model covers the
  texts whose code points are below 256. The character classes below are those of
  Python 3 on that range.
\<close>

definition is_space :: "char \<Rightarrow> bool" where
  \<comment> \<open>\<^verbatim>\<open>str.isspace\<close>, also the class \<^verbatim>\<open>\s\<close> of \<^verbatim>\<open>re\<close> on \<^verbatim>\<open>str\<close> patterns\<close>
  "is_space c \<longleftrightarrow> c \<in> set [CHR 0x09, CHR 0x0A, CHR 0x0B, CHR 0x0C, CHR 0x0D,
     CHR 0x1C, CHR 0x1D, CHR 0x1E, CHR 0x1F, CHR 0x20, CHR 0x85, CHR 0xA0]"

definition is_digit :: "char \<Rightarrow> bool" where
  \<comment> \<open>the class \<^verbatim>\<open>\d\<close>\<close>
  "is_digit c \<longleftrightarrow> c \<in> set ''0123456789''"

definition is_upper :: "char \<Rightarrow> bool" where
  \<comment> \<open>letters with a lower-case partner below 256: A-Z and the range from 0xC0 to 0xDE
      without the multiplication sign 0xD7\<close>
  "is_upper c \<longleftrightarrow> c \<in> set ''ABCDEFGHIJKLMNOPQRSTUVWXYZ'' \<or> c \<in> set
    [CHR 0xC0, CHR 0xC1, CHR 0xC2, CHR 0xC3, CHR 0xC4, CHR 0xC5, CHR 0xC6, CHR 0xC7,
     CHR 0xC8, CHR 0xC9, CHR 0xCA, CHR 0xCB, CHR 0xCC, CHR 0xCD, CHR 0xCE, CHR 0xCF,
     CHR 0xD0, CHR 0xD1, CHR 0xD2, CHR 0xD3, CHR 0xD4, CHR 0xD5, CHR 0xD6, CHR 0xD8,
     CHR 0xD9, CHR 0xDA, CHR 0xDB, CHR 0xDC, CHR 0xDD, CHR 0xDE]"

definition is_lower :: "char \<Rightarrow> bool" where
  \<comment> \<open>letters with an upper-case partner below 256: a-z and the range from 0xE0 to 0xFE
      without the division sign 0xF7\<close>
  "is_lower c \<longleftrightarrow> c \<in> set ''abcdefghijklmnopqrstuvwxyz'' \<or> c \<in> set
    [CHR 0xE0, CHR 0xE1, CHR 0xE2, CHR 0xE3, CHR 0xE4, CHR 0xE5, CHR 0xE6, CHR 0xE7,
     CHR 0xE8, CHR 0xE9, CHR 0xEA, CHR 0xEB, CHR 0xEC, CHR 0xED, CHR 0xEE, CHR 0xEF,
     CHR 0xF0, CHR 0xF1, CHR 0xF2, CHR 0xF3, CHR 0xF4, CHR 0xF5, CHR 0xF6, CHR 0xF8,
     CHR 0xF9, CHR 0xFA, CHR 0xFB, CHR 0xFC, CHR 0xFD, CHR 0xFE]"

definition is_cased :: "char \<Rightarrow> bool" where
  \<comment> \<open>cased characters: the letters above and the five lower-case letters whose upper case
      is not below 256\<close>
  "is_cased c \<longleftrightarrow> is_upper c \<or> is_lower c
     \<or> c \<in> set [CHR 0xAA, CHR 0xB5, CHR 0xBA, CHR 0xDF, CHR 0xFF]"

definition is_word :: "char \<Rightarrow> bool" where
  \<comment> \<open>the class \<^verbatim>\<open>\w\<close>: alphanumeric characters (the superscript digits and the
      fractions of the range among them) and the underscore\<close>
  "is_word c \<longleftrightarrow> is_digit c \<or> is_cased c \<or> c = CHR ''_''
     \<or> c \<in> set [CHR 0xB2, CHR 0xB3, CHR 0xB9, CHR 0xBC, CHR 0xBD, CHR 0xBE]"

definition to_lower :: "char \<Rightarrow> char" where
  \<comment> \<open>the lower-case partner is 32 above: bit 5, clear in an upper-case letter, is set\<close>
  "to_lower c = (if is_upper c
     then (case c of Char b0 b1 b2 b3 b4 b5 b6 b7 \<Rightarrow> Char b0 b1 b2 b3 b4 True b6 b7)
     else c)"

definition to_upper :: "char \<Rightarrow> char" where
  \<comment> \<open>the upper-case partner is 32 below: bit 5 is cleared; the five letters whose upper
      case is not below 256 are left as they are\<close>
  "to_upper c = (if is_lower c
     then (case c of Char b0 b1 b2 b3 b4 b5 b6 b7 \<Rightarrow> Char b0 b1 b2 b3 b4 False b6 b7)
     else c)"

definition lower :: "string \<Rightarrow> string" where
  "lower s = map to_lower s"

fun lstrip :: "string \<Rightarrow> string" where
  "lstrip [] = []"
| "lstrip (c # cs) = (if is_space c then lstrip cs else c # cs)"

definition strip :: "string \<Rightarrow> string" where
  \<comment> \<open>\<^verbatim>\<open>str.strip()\<close>\<close>
  "strip s = rev (lstrip (rev (lstrip s)))"

fun title_from :: "bool \<Rightarrow> string \<Rightarrow> string" where
  \<comment> \<open>\<^verbatim>\<open>str.title()\<close>: a cased character is upper-cased after an uncased one and
      lower-cased after a cased one; the flag says whether the previous one was cased\<close>
  "title_from prev [] = []"
| "title_from prev (c # cs) =
     (if prev then to_lower c else to_upper c) # title_from (is_cased c) cs"

definition title :: "string \<Rightarrow> string" where
  "title s = title_from False s"

definition replace_char :: "char \<Rightarrow> char \<Rightarrow> string \<Rightarrow> string" where
  \<comment> \<open>\<^verbatim>\<open>str.replace\<close> for a one-character pattern and replacement\<close>
  "replace_char a b s = map (\<lambda>c. if c = a then b else c) s"

function split_from :: "string \<Rightarrow> string \<Rightarrow> string \<Rightarrow> string list" where
  \<comment> \<open>\<^verbatim>\<open>str.split(sep)\<close> for a non-empty separator, scanning from the left; the second
      argument is the segment read so far\<close>
  "split_from sep cur [] = [cur]"
| "split_from sep cur (c # cs) =
     (if sep \<noteq> [] \<and> prefix sep (c # cs)
      then cur # split_from sep [] (drop (length sep) (c # cs))
      else split_from sep (cur @ [c]) cs)"
  by pat_completeness auto
termination
  by (relation "measure (\<lambda>(sep, cur, s). length s)") auto

definition split :: "string \<Rightarrow> string \<Rightarrow> string list" where
  "split s sep = split_from sep [] s"

definition substr :: "string \<Rightarrow> nat \<Rightarrow> nat \<Rightarrow> string" where
  \<comment> \<open>the slice \<^verbatim>\<open>s[a:b]\<close> for \<open>a \<le> b\<close>\<close>
  "substr s a b = take (b - a) (drop a s)"

definition dict_fromkeys :: "'a list \<Rightarrow> 'a list" where
  \<comment> \<open>\<^verbatim>\<open>list(dict.fromkeys(xs))\<close>: the keys in the order of their first insertion\<close>
  "dict_fromkeys xs = foldl (\<lambda>acc x. if x \<in> set acc then acc else acc @ [x]) [] xs"

section \<open>Regular expressions\<close>

text \<open>
  The patterns of the module are values of the type \<open>re\<close>. The matcher lists, for a start
  position, every way the pattern can match there, in the order in which the backtracking
  matcher of Python's \<^verbatim>\<open>re\<close> tries them: the head of the list is the match \<^verbatim>\<open>re\<close>
  reports. A result is the end position and the span of the capturing group; every
  pattern of the module has at most one capturing group.
\<close>

type_synonym cap = "(nat \<times> nat) option"

datatype re =
    Eps
  | Sym "char \<Rightarrow> bool"
  | Seq re re
  | Alt re re
  | Star re
  | LStar re
  | Grp re
  | Bol
  | Eol
  | WordB

definition word_at :: "string \<Rightarrow> nat \<Rightarrow> bool" where
  "word_at s i \<longleftrightarrow> i < length s \<and> is_word (s ! i)"

function ms :: "re \<Rightarrow> string \<Rightarrow> cap \<Rightarrow> nat \<Rightarrow> (nat \<times> cap) list" where
  "ms Eps s g i = [(i, g)]"
| "ms (Sym P) s g i = (if i < length s \<and> P (s ! i) then [(Suc i, g)] else [])"
| "ms (Seq a b) s g i = concat (map (\<lambda>(j, h). ms b s h j) (ms a s g i))"
| "ms (Alt a b) s g i = ms a s g i @ ms b s g i"
| "ms (Star a) s g i =
     concat (map (\<lambda>(j, h). if i < j \<and> j \<le> length s then ms (Star a) s h j else [])
       (ms a s g i)) @ [(i, g)]"
| "ms (LStar a) s g i =
     (i, g) # concat (map (\<lambda>(j, h). if i < j \<and> j \<le> length s then ms (LStar a) s h j else [])
       (ms a s g i))"
| "ms (Grp a) s g i = map (\<lambda>(j, h). (j, Some (i, j))) (ms a s g i)"
| "ms Bol s g i = (if i = 0 then [(i, g)] else [])"
| "ms Eol s g i =
     (if i = length s \<or> (Suc i = length s \<and> s ! i = CHR 0x0A) then [(i, g)] else [])"
| "ms WordB s g i =
     (if (0 < i \<and> word_at s (i - 1)) \<noteq> word_at s i then [(i, g)] else [])"
  by pat_completeness auto
termination
  by (relation "measures [\<lambda>(r, s, g, i). size r, \<lambda>(r, s, g, i). length s - i]") auto

record rmatch =
  m_start :: nat
  m_end :: nat
  m_cap :: cap

fun search_from :: "re \<Rightarrow> string \<Rightarrow> nat \<Rightarrow> nat \<Rightarrow> rmatch option" where
  \<comment> \<open>\<^verbatim>\<open>re.search\<close> from position \<open>i\<close>: the first start position with a match; the second
      number counts the start positions still to try\<close>
  "search_from r s i 0 = None"
| "search_from r s i (Suc n) =
     (case ms r s None i of
        [] \<Rightarrow> search_from r s (Suc i) n
      | (j, h) # _ \<Rightarrow> Some \<lparr>m_start = i, m_end = j, m_cap = h\<rparr>)"

definition search_at :: "re \<Rightarrow> string \<Rightarrow> nat \<Rightarrow> rmatch option" where
  \<comment> \<open>the first match that starts at position \<open>i\<close> or later\<close>
  "search_at r s i = search_from r s i (Suc (length s) - i)"

definition search :: "re \<Rightarrow> string \<Rightarrow> rmatch option" where
  \<comment> \<open>\<^verbatim>\<open>re.search(pattern, s)\<close>\<close>
  "search r s = search_at r s 0"

fun finditer_from :: "re \<Rightarrow> string \<Rightarrow> nat \<Rightarrow> nat \<Rightarrow> rmatch list" where
  \<comment> \<open>\<^verbatim>\<open>re.finditer\<close>: the matches from the left, each search starting where the last match
      ended. The patterns used with it match no empty string, so every match moves the
      start on; the last number bounds the matches still to come.\<close>
  "finditer_from r s i 0 = []"
| "finditer_from r s i (Suc n) =
     (case search_at r s i of
        None \<Rightarrow> []
      | Some m \<Rightarrow> m # finditer_from r s (max (m_end m) (Suc (m_start m))) n)"

definition finditer :: "re \<Rightarrow> string \<Rightarrow> rmatch list" where
  "finditer r s = finditer_from r s 0 (Suc (length s))"

definition group0 :: "string \<Rightarrow> rmatch \<Rightarrow> string" where
  "group0 s m = substr s (m_start m) (m_end m)"

definition group1 :: "string \<Rightarrow> rmatch \<Rightarrow> string" where
  \<comment> \<open>\<^verbatim>\<open>m.group(1)\<close>; in every pattern of the module the group takes part in each match\<close>
  "group1 s m = (case m_cap m of Some (a, b) \<Rightarrow> substr s a b | None \<Rightarrow> [])"

subsection \<open>Pattern syntax\<close>

definition same_letter :: "char \<Rightarrow> char \<Rightarrow> bool" where
  \<comment> \<open>equality of characters under \<^verbatim>\<open>re.IGNORECASE\<close>\<close>
  "same_letter c x \<longleftrightarrow> to_lower x = to_lower c"

definition one_of :: "string \<Rightarrow> char \<Rightarrow> bool" where
  "one_of cs x \<longleftrightarrow> x \<in> set cs"

definition not_one_of :: "string \<Rightarrow> char \<Rightarrow> bool" where
  "not_one_of cs x \<longleftrightarrow> x \<notin> set cs"

definition any_one :: "char \<Rightarrow> bool" where
  "any_one x \<longleftrightarrow> True"

definition chr :: "char \<Rightarrow> re" where
  "chr c = Sym ((=) c)"

definition chri :: "char \<Rightarrow> re" where
  \<comment> \<open>a literal character under \<^verbatim>\<open>re.IGNORECASE\<close>\<close>
  "chri c = Sym (same_letter c)"

definition seqs :: "re list \<Rightarrow> re" where
  "seqs rs = foldr Seq rs Eps"

definition alts :: "re list \<Rightarrow> re" where
  \<comment> \<open>\<^verbatim>\<open>a|b|c\<close>, for a non-empty list\<close>
  "alts rs = foldr Alt (butlast rs) (last rs)"

definition lit :: "string \<Rightarrow> re" where
  "lit w = seqs (map chr w)"

definition liti :: "string \<Rightarrow> re" where
  "liti w = seqs (map chri w)"

definition opt :: "re \<Rightarrow> re" where
  \<comment> \<open>\<^verbatim>\<open>r?\<close>\<close>
  "opt r = Alt r Eps"

definition plus_re :: "re \<Rightarrow> re" where
  \<comment> \<open>\<^verbatim>\<open>r+\<close>\<close>
  "plus_re r = Seq r (Star r)"

definition any_char :: re where
  \<comment> \<open>\<^verbatim>\<open>.\<close> under \<^verbatim>\<open>re.DOTALL\<close>, and \<^verbatim>\<open>[\s\S]\<close>\<close>
  "any_char = Sym any_one"

definition none_of :: "string \<Rightarrow> re" where
  \<comment> \<open>\<^verbatim>\<open>[^...]\<close>\<close>
  "none_of cs = Sym (not_one_of cs)"

definition some_of :: "string \<Rightarrow> re" where
  \<comment> \<open>\<^verbatim>\<open>[...]\<close>\<close>
  "some_of cs = Sym (one_of cs)"

definition digit :: re where
  "digit = Sym is_digit"

definition space :: re where
  "space = Sym is_space"

fun first_search :: "re list \<Rightarrow> string \<Rightarrow> rmatch option" where
  \<comment> \<open>the loop \<^verbatim>\<open>for pattern in patterns: m = re.search(pattern, text); if m: ...\<close>
      that stops at the first pattern with a match\<close>
  "first_search [] s = None"
| "first_search (r # rs) s =
     (case search r s of Some m \<Rightarrow> Some m | None \<Rightarrow> first_search rs s)"

subsection \<open>Evaluation\<close>

text \<open>The steps of the matcher as constants, for the code equations of \<open>ms\<close> below.\<close>

definition ms_next :: "re \<Rightarrow> string \<Rightarrow> nat \<times> cap \<Rightarrow> (nat \<times> cap) list" where
  "ms_next b s p = ms b s (snd p) (fst p)"

definition ms_again :: "re \<Rightarrow> string \<Rightarrow> nat \<Rightarrow> nat \<times> cap \<Rightarrow> (nat \<times> cap) list" where
  "ms_again r s i p = (if i < fst p \<and> fst p \<le> length s then ms r s (snd p) (fst p) else [])"

definition ms_close :: "nat \<Rightarrow> nat \<times> cap \<Rightarrow> nat \<times> cap" where
  "ms_close i p = (fst p, Some (i, fst p))"



section \<open>Salary and job type\<close>

definition digits_1_3 :: re where
  \<comment> \<open>\<^verbatim>\<open>\d{1,3}\<close>\<close>
  "digits_1_3 = Seq digit (opt (Seq digit (opt digit)))"

definition amount :: re where
  \<comment> \<open>\<^verbatim>\<open>\d{1,3}(?:,\d{3})*(?:\.\d{2})?\<close>\<close>
  "amount = seqs [digits_1_3, Star (seqs [chr CHR '','', digit, digit, digit]),
     opt (seqs [chr CHR ''.'', digit, digit])]"

definition currency :: re where
  \<comment> \<open>\<^verbatim>\<open>(?:USD|EUR|GBP|AUD|CAD)\<close> under \<^verbatim>\<open>re.IGNORECASE\<close>\<close>
  "currency = alts [liti ''USD'', liti ''EUR'', liti ''GBP'', liti ''AUD'', liti ''CAD'']"

definition dash :: re where
  \<comment> \<open>\<^verbatim>\<open>\s*-\s*\<close>\<close>
  "dash = seqs [Star space, chr CHR ''-'', Star space]"

definition salary_patterns :: "re list" where
  "salary_patterns =
    [Grp (seqs [chr CHR ''$'', amount,
       opt (seqs [dash, chr CHR ''$'', amount]),
       opt (seqs [Star space, alts [liti ''per'', liti ''a'', chr CHR ''/''], Star space,
         alts [liti ''year'', liti ''yr'', liti ''month'', liti ''mo'', liti ''hour'',
           liti ''hr'', liti ''annum'']])]),
     Grp (seqs [currency, Star space, amount,
       opt (seqs [dash, currency, Star space, amount])]),
     Grp (seqs [amount, Star space, currency,
       opt (seqs [dash, amount, Star space, currency])])]"

definition extract_salary :: "string \<Rightarrow> string" where
  "extract_salary text =
     (case first_search salary_patterns text of
        Some m \<Rightarrow> group1 text m
      | None \<Rightarrow> ''Salary not specified'')"

definition job_type_label :: re where
  \<comment> \<open>\<^verbatim>\<open>(?:Job|Employment) Type:?\s*([^\n\.;]+)\<close>\<close>
  "job_type_label = seqs [alts [liti ''Job'', liti ''Employment''], liti '' Type'',
     opt (chr CHR '':''), Star space, Grp (plus_re (none_of [CHR 0x0A, CHR ''.'', CHR '';'']))]"

definition job_type_term :: re where
  \<comment> \<open>\<^verbatim>\<open>(Full[- ]Time|Part[- ]Time|Contract|Temporary|Freelance|Permanent|Remote)\<close>\<close>
  "job_type_term = Grp (alts
     [seqs [liti ''Full'', some_of ''- '', liti ''Time''],
      seqs [liti ''Part'', some_of ''- '', liti ''Time''],
      liti ''Contract'', liti ''Temporary'', liti ''Freelance'', liti ''Permanent'',
      liti ''Remote''])"

definition job_type_keywords :: "string list" where
  "job_type_keywords = [''full-time'', ''part-time'', ''contract'', ''temporary'',
     ''freelance'', ''permanent'', ''remote'', ''hybrid'']"

definition whole_word :: "string \<Rightarrow> re" where
  \<comment> \<open>\<^verbatim>\<open>\b{keyword}\b\<close> under \<^verbatim>\<open>re.IGNORECASE\<close>\<close>
  "whole_word w = seqs [WordB, liti w, WordB]"

definition has_word :: "string \<Rightarrow> string \<Rightarrow> bool" where
  \<comment> \<open>\<^verbatim>\<open>re.search(r'\b{}\b'.format(keyword), text, re.IGNORECASE)\<close> finds a match\<close>
  "has_word text_content keyword \<longleftrightarrow> search (whole_word keyword) text_content \<noteq> None"

definition extract_job_type :: "string \<Rightarrow> string" where
  "extract_job_type text_content =
     (case first_search [job_type_label, job_type_term] text_content of
        Some m \<Rightarrow> strip (group1 text_content m)
      | None \<Rightarrow>
         (case filter (has_word text_content) job_type_keywords of
            keyword # _ \<Rightarrow> title keyword
          | [] \<Rightarrow> ''Not specified''))"

section \<open>Description, requirements and benefits\<close>

text \<open>
  The parsed page (\<^verbatim>\<open>BeautifulSoup(html, 'html.parser')\<close>) is used through three queries:
  the stripped text of the first element a selector matches
  (\<^verbatim>\<open>soup.select_one(sel).get_text(strip=True)\<close>, \<open>None\<close> when no element matches), the text of
  the title tag (\<^verbatim>\<open>soup.find("title").text\<close>, \<open>None\<close> without a title tag) and the
  \<^verbatim>\<open>href\<close> of the first element a selector matches (\<open>None\<close> when there is no element or no
  attribute, or the selector raises).
\<close>

record soup =
  select_text :: "string \<Rightarrow> string option"
  title_text :: "string option"
  select_href :: "string \<Rightarrow> string option"

definition colon_or_newline :: re where
  \<comment> \<open>\<^verbatim>\<open>[:\n]\<close>\<close>
  "colon_or_newline = some_of [CHR '':'', CHR 0x0A]"

definition description_selectors :: "string list" where
  "description_selectors = [''div.job-description'', ''div.description'', ''#job-description'',
     ''.jobSectionHeader'', ''[data-testid='' @ [CHR 0x27] @ ''jobDescriptionText'' @ [CHR 0x27] @ '']'',
     ''.description__text'']"

definition description_patterns :: "re list" where
  "description_patterns =
    [seqs [alts [liti ''Job'', liti ''Position''], liti '' Description'', colon_or_newline,
       Grp (LStar any_char),
       alts [liti ''Requirements'', liti ''Qualifications'', liti ''Responsibilities'',
         liti ''About'']],
     seqs [liti ''About the job'', colon_or_newline, Grp (LStar any_char),
       alts [liti ''Requirements'', liti ''Qualifications'', liti ''Responsibilities'']],
     seqs [liti ''Overview'', colon_or_newline, Grp (LStar any_char),
       alts [liti ''Requirements'', liti ''Qualifications'', liti ''Responsibilities'']]]"

definition extract_job_description :: "soup \<Rightarrow> string \<Rightarrow> string" where
  "extract_job_description sp text_content =
     (let by_selector =
            (case List.map_filter (select_text sp) description_selectors of
               [] \<Rightarrow> [] | section # _ \<Rightarrow> section);
          by_pattern =
            (if by_selector = []
             then (case first_search description_patterns text_content of
                     Some m \<Rightarrow> strip (group1 text_content m) | None \<Rightarrow> [])
             else by_selector)
      in if by_pattern = [] then take 500 text_content @ ''...'' else by_pattern)"

definition section_end :: re where
  \<comment> \<open>\<^verbatim>\<open>(?:Benefits|Apply|About Us|Company)\<close>\<close>
  "section_end = alts [liti ''Benefits'', liti ''Apply'', liti ''About Us'', liti ''Company'']"

definition req_patterns :: "re list" where
  "req_patterns =
    [seqs [liti ''Requirement'', opt (chri CHR ''s''), colon_or_newline, Grp (LStar any_char),
       section_end],
     seqs [liti ''Qualification'', opt (chri CHR ''s''), colon_or_newline, Grp (LStar any_char),
       section_end],
     seqs [liti ''Skills'', colon_or_newline, Grp (LStar any_char), section_end]]"

definition bullet_pattern :: re where
  \<comment> \<open>\<^verbatim>\<open>[\*\-\<bullet>]\s*([^\n\*\-\<bullet>]+)\<close>; the bullet character U+2022 of the two classes is not
      below 256\<close>
  "bullet_pattern = seqs [some_of ''*-'', Star space,
     Grp (plus_re (none_of [CHR 0x0A, CHR ''*'', CHR ''-'']))]"

definition stripped_group1 :: "string \<Rightarrow> rmatch \<Rightarrow> string" where
  "stripped_group1 s m = strip (group1 s m)"

definition stripped_group0 :: "string \<Rightarrow> rmatch \<Rightarrow> string" where
  "stripped_group0 s m = strip (group0 s m)"

definition longer_than :: "nat \<Rightarrow> string \<Rightarrow> bool" where
  "longer_than n line \<longleftrightarrow> n < length line"

definition nonempty :: "string \<Rightarrow> bool" where
  "nonempty line \<longleftrightarrow> line \<noteq> []"

definition section_items :: "nat \<Rightarrow> string \<Rightarrow> string list" where
  \<comment> \<open>the entries of a labelled section: the bullet points (\<^verbatim>\<open>re.findall\<close> gives the
      group of every match), or without bullet points the lines longer than \<open>n\<close>\<close>
  "section_items n sect =
     (let bullet_points = map (group1 sect) (finditer bullet_pattern sect)
      in if bullet_points \<noteq> []
         then filter nonempty (map strip bullet_points)
         else filter (longer_than n)
                (filter nonempty (map strip (split sect [CHR 0x0A]))))"

definition skill_keywords :: "string list" where
  "skill_keywords = [''experience with'', ''proficient in'', ''knowledge of'', ''degree in'',
     ''years of experience'', ''background in'', ''skill'', ''ability to'']"

definition sentence_from :: "string \<Rightarrow> re" where
  \<comment> \<open>\<^verbatim>\<open>{keyword}[^.]+\.\<close> under \<^verbatim>\<open>re.IGNORECASE\<close>\<close>
  "sentence_from keyword = seqs [liti keyword, plus_re (none_of ''.''), chr CHR ''.'']"

definition keyword_sentences :: "string \<Rightarrow> string \<Rightarrow> string list" where
  "keyword_sentences text_content keyword =
     map (stripped_group0 text_content) (finditer (sentence_from keyword) text_content)"

definition extract_job_requirements :: "soup \<Rightarrow> string \<Rightarrow> string list" where
  "extract_job_requirements sp text_content =
     (let req_section =
            (case first_search req_patterns text_content of
               Some m \<Rightarrow> strip (group1 text_content m) | None \<Rightarrow> []);
          listed = (if req_section \<noteq> [] then section_items 15 req_section else []);
          requirements =
            (if listed = [] then concat (map (keyword_sentences text_content) skill_keywords)
             else listed)
      in take 10 (dict_fromkeys requirements))"

definition benefit_patterns :: "re list" where
  "benefit_patterns =
    [seqs [liti ''Benefits'', colon_or_newline, Grp (LStar any_char),
       alts [liti ''Apply'', liti ''About Us'', liti ''Company'']],
     seqs [liti ''Perks'', colon_or_newline, Grp (LStar any_char),
       alts [liti ''Apply'', liti ''About Us'', liti ''Company'']],
     seqs [liti ''What we offer'', colon_or_newline, Grp (LStar any_char),
       alts [liti ''Apply'', liti ''About Us'', liti ''Company'']]]"

definition benefit_keywords :: "string list" where
  "benefit_keywords = [''health insurance'', ''dental insurance'', ''vision insurance'', ''401k'',
     ''retirement'', ''paid time off'', ''pto'', ''vacation'', ''remote work'', ''flexible'',
     ''bonus'']"

definition extract_benefits :: "string \<Rightarrow> string list" where
  "extract_benefits text_content =
     (let benefit_section =
            (case first_search benefit_patterns text_content of
               Some m \<Rightarrow> strip (group1 text_content m) | None \<Rightarrow> []);
          listed = (if benefit_section \<noteq> [] then section_items 10 benefit_section else []);
          benefits =
            (if listed = [] then map title (filter (has_word text_content) benefit_keywords)
             else listed)
      in take 8 (dict_fromkeys benefits))"

definition apply_selectors :: "string list" where
  "apply_selectors = [''a.apply-button'', ''a.job-apply'',
     ''a[data-automation='' @ [CHR 0x27] @ ''job-detail-apply'' @ [CHR 0x27] @ '']'',
     ''a:contains('' @ [CHR 0x27] @ ''Apply'' @ [CHR 0x27] @ '')'',
     ''a.btn-apply'', ''.jobsearch-IndeedApplyButton'']"

definition extract_application_link :: "soup \<Rightarrow> string \<Rightarrow> string" where
  "extract_application_link sp default_url =
     (case filter nonempty (List.map_filter (select_href sp) apply_selectors) of
        href # _ \<Rightarrow> href
      | [] \<Rightarrow> default_url)"

section \<open>Fetching a job page\<close>

text \<open>
  The world outside the module: \<^verbatim>\<open>requests.get\<close>, the search of \<^verbatim>\<open>DDGS().text\<close>, and the
  two readings of a fetched page (\<^verbatim>\<open>BeautifulSoup\<close> and \<^verbatim>\<open>h2t.handle\<close>). A call can raise;
  what it returns may depend on the calls made before, which are recorded in a log.
\<close>

datatype error = RequestException | HTTPError int | SearchError | ParseError | ServiceError
  | JSONDecodeError

datatype event = Get string string | Search string int

record response =
  status_code :: int
  body_text :: string

record page =
  page_soup :: soup
  page_text :: string

type_synonym result = "string \<rightharpoonup> string"

record env =
  http_get :: "event list \<Rightarrow> string \<Rightarrow> string \<Rightarrow> error + response"
  ddgs_text :: "event list \<Rightarrow> string \<Rightarrow> int \<Rightarrow> error + result list"
  render :: "string \<Rightarrow> error + page"

definition get_or :: "result \<Rightarrow> string \<Rightarrow> string \<Rightarrow> string" where
  \<comment> \<open>\<^verbatim>\<open>result.get(key, default)\<close>\<close>
  "get_or r key dflt = (case r key of Some v \<Rightarrow> v | None \<Rightarrow> dflt)"

record job_details =
  description :: string
  requirements :: "string list"
  salary :: string
  job_type :: string
  benefits :: "string list"
  application_link :: string
  full_text :: string

definition user_agents :: "string list" where
  "user_agents =
    [''Mozilla/5.0 (Windows NT 10.0; Win64; x64) AppleWebKit/537.36 (KHTML, like Gecko) Chrome/91.0.4472.124 Safari/537.36'',
     ''Mozilla/5.0 (Macintosh; Intel Mac OS X 10_15_7) AppleWebKit/605.1.15 (KHTML, like Gecko) Version/15.0 Safari/605.1.15'',
     ''Mozilla/5.0 (X11; Linux x86_64) AppleWebKit/537.36 (KHTML, like Gecko) Chrome/92.0.4515.107 Safari/537.36'',
     ''Mozilla/5.0 (Windows NT 10.0; Win64; x64; rv:90.0) Gecko/20100101 Firefox/90.0'']"

fun retry_agents ::
  "env \<Rightarrow> string \<Rightarrow> string list \<Rightarrow> response \<Rightarrow> event list \<Rightarrow> event list \<times> (error + response)"
where
  \<comment> \<open>the loop over \<^verbatim>\<open>user_agents[1:]\<close> after a first status other than 200\<close>
  "retry_agents e url [] resp log = (log, Inr resp)"
| "retry_agents e url (agent # agents) resp log =
     (case http_get e log url agent of
        Inl err \<Rightarrow> (log @ [Get url agent], Inl err)
      | Inr r \<Rightarrow>
          if status_code r = 200 then (log @ [Get url agent], Inr r)
          else retry_agents e url agents r (log @ [Get url agent]))"

definition raise_for_status :: "response \<Rightarrow> error + response" where
  "raise_for_status r =
     (if 400 \<le> status_code r \<and> status_code r < 600 then Inl (HTTPError (status_code r))
      else Inr r)"

definition fetch :: "env \<Rightarrow> string \<Rightarrow> event list \<Rightarrow> event list \<times> (error + response)" where
  "fetch e url log =
     (case http_get e log url (hd user_agents) of
        Inl err \<Rightarrow> (log @ [Get url (hd user_agents)], Inl err)
      | Inr r \<Rightarrow>
          (case (if status_code r \<noteq> 200
                 then retry_agents e url (tl user_agents) r (log @ [Get url (hd user_agents)])
                 else (log @ [Get url (hd user_agents)], Inr r)) of
             (log2, Inl err) \<Rightarrow> (log2, Inl err)
           | (log2, Inr r2) \<Rightarrow> (log2, raise_for_status r2)))"

record draft =
  d_description :: string
  d_requirements :: "string list"
  d_log :: "event list"

definition alt_step :: "env \<Rightarrow> result \<Rightarrow> draft \<Rightarrow> draft \<times> bool" where
  \<comment> \<open>one round of the loop over the alternate results; the flag is the \<^verbatim>\<open>break\<close>\<close>
  "alt_step e res st =
     (let alt_url = get_or res ''href'' [];
          agent = user_agents ! 2;
          st1 = st\<lparr>d_log := d_log st @ [Get alt_url agent]\<rparr>
      in case http_get e (d_log st) alt_url agent of
           Inl err \<Rightarrow> (st1, False)
         | Inr r \<Rightarrow>
             if status_code r = 200
             then (case render e (body_text r) of
                     Inl err \<Rightarrow> (st1, False)
                   | Inr pg \<Rightarrow>
                       (let d = (if d_description st = []
                                 then extract_job_description (page_soup pg) (page_text pg)
                                 else d_description st);
                            q = (if d_requirements st = []
                                 then extract_job_requirements (page_soup pg) (page_text pg)
                                 else d_requirements st)
                        in (st1\<lparr>d_description := d, d_requirements := q\<rparr>,
                            d \<noteq> [] \<and> q \<noteq> [])))
             else (st1, False))"

fun alt_loop :: "env \<Rightarrow> result list \<Rightarrow> draft \<Rightarrow> draft" where
  "alt_loop e [] st = st"
| "alt_loop e (res # rest) st =
     (case alt_step e res st of (st1, stop) \<Rightarrow> if stop then st1 else alt_loop e rest st1)"

definition page_title :: "soup \<Rightarrow> string \<times> string" where
  \<comment> \<open>the title and the company read from the title tag\<close>
  "page_title sp =
     (case title_text sp of
        None \<Rightarrow> ([], [])
      | Some t \<Rightarrow>
          if t = [] then ([], [])
          else (let title_parts = split t '' - ''
                in (strip (hd title_parts),
                    if 1 < length title_parts then strip (title_parts ! 1) else [])))"

definition recovery_query :: "string \<Rightarrow> string \<Rightarrow> string" where
  "recovery_query ttl company =
     ttl @ '' job description'' @ (if company \<noteq> [] then '' '' @ company else [])"

definition recover :: "env \<Rightarrow> soup \<Rightarrow> draft \<Rightarrow> draft" where
  \<comment> \<open>the search for alternate sources\<close>
  "recover e sp st =
     (if d_description st = [] \<or> d_requirements st = []
      then (case page_title sp of
              (ttl, company) \<Rightarrow>
                if ttl \<noteq> []
                then (let search_query = recovery_query ttl company;
                          st1 = st\<lparr>d_log := d_log st @ [Search search_query 3]\<rparr>
                      in case ddgs_text e (d_log st) search_query 3 of
                           Inl err \<Rightarrow> st1
                         | Inr alt_results \<Rightarrow> alt_loop e alt_results st1)
                else st)
      else st)"

definition extract_with_recovery ::
  "env \<Rightarrow> string \<Rightarrow> event list \<times> (error + page \<times> draft)"
where
  \<comment> \<open>the body of \<^verbatim>\<open>get_job_details\<close> down to the end of the search for alternate sources\<close>
  "extract_with_recovery e url =
     (case fetch e url [] of
        (log, Inl err) \<Rightarrow> (log, Inl err)
      | (log, Inr r) \<Rightarrow>
          (case render e (body_text r) of
             Inl err \<Rightarrow> (log, Inl err)
           | Inr pg \<Rightarrow>
               (let st = recover e (page_soup pg)
                      \<lparr>d_description = extract_job_description (page_soup pg) (page_text pg),
                       d_requirements = extract_job_requirements (page_soup pg) (page_text pg),
                       d_log = log\<rparr>
                in (d_log st, Inr (pg, st)))))"

definition url_job_title :: "string \<Rightarrow> string" where
  \<comment> \<open>\<^verbatim>\<open>url.split('/')[-1].replace('-', ' ').title()\<close>\<close>
  "url_job_title url = title (replace_char CHR ''-'' CHR '' '' (last (split url ''/'')))"

definition requirement_keywords :: "string list" where
  "requirement_keywords = [''required'', ''qualification'', ''skill'', ''experience'',
     ''knowledge'', ''proficiency'', ''ability'', ''competency'', ''education'', ''degree'']"

definition requirement_from :: "string \<Rightarrow> re" where
  \<comment> \<open>\<^verbatim>\<open>(?:^|\n|\s)({keyword}[^\.;:]*(?:\.|\n|$))\<close> under \<^verbatim>\<open>re.IGNORECASE\<close>\<close>
  "requirement_from keyword = seqs [alts [Bol, chr CHR 0x0A, space],
     Grp (seqs [liti keyword, Star (none_of ''.;:''), alts [chr CHR ''.'', chr CHR 0x0A, Eol]])]"

definition keyword_requirements :: "string \<Rightarrow> string \<Rightarrow> string list" where
  "keyword_requirements text_content keyword =
     filter (longer_than 10)
       (map (stripped_group1 text_content) (finditer (requirement_from keyword) text_content))"

definition fallback_requirements :: "string \<Rightarrow> string \<Rightarrow> string list" where
  \<comment> \<open>the requirements when the extraction and the alternate sources gave none\<close>
  "fallback_requirements url text_content =
     (let potential_requirements =
            concat (map (keyword_requirements text_content) requirement_keywords)
      in if potential_requirements \<noteq> [] then take 10 potential_requirements
         else [''Relevant experience in '' @ url_job_title url @ '' or related field'',
               ''Strong communication skills'',
               ''Problem-solving abilities'',
               ''Ability to work effectively in a team''])"

definition placeholder_details :: "string \<Rightarrow> job_details" where
  \<comment> \<open>the record of the \<^verbatim>\<open>except\<close> branch\<close>
  "placeholder_details url =
     \<lparr>description = ''This is a job listing for a '' @ url_job_title url
        @ '' position. The original job posting contains more detailed information.'',
      requirements =
        [''Experience with '' @ url_job_title url @ '' or similar roles'',
         ''Relevant skills and qualifications'',
         ''Education requirements as specified in the job posting'',
         ''Communication and teamwork skills''],
      salary = ''Please refer to the original job listing for salary information'',
      job_type = ''Full-time (refer to original listing for confirmation)'',
      benefits = [''Visit the original job listing for complete benefits information''],
      application_link = url,
      full_text = ''This is a simplified version of the job listing. Please visit the original posting at ''
        @ url @ '' for complete details.''\<rparr>"

definition finish_details :: "string \<Rightarrow> page \<Rightarrow> draft \<Rightarrow> job_details" where
  \<comment> \<open>the rest of the body: the two last fallbacks and the record\<close>
  "finish_details url pg st =
     (let text_content = page_text pg;
          d = (if d_description st = []
               then ''This job listing is for a '' @ url_job_title url
                 @ '' position. The full job details and requirements can be accessed on the original job posting.''
               else d_description st);
          q = (if d_requirements st = [] then fallback_requirements url text_content
               else d_requirements st)
      in \<lparr>description = d,
          requirements = q,
          salary = extract_salary text_content,
          job_type = extract_job_type text_content,
          benefits = extract_benefits text_content,
          application_link = extract_application_link (page_soup pg) url,
          full_text = take 5000 text_content\<rparr>)"

definition get_job_details_log :: "env \<Rightarrow> string \<Rightarrow> job_details \<times> event list" where
  \<comment> \<open>\<^verbatim>\<open>get_job_details\<close> with the calls it made\<close>
  "get_job_details_log e url =
     (case extract_with_recovery e url of
        (log, Inl err) \<Rightarrow> (placeholder_details url, log)
      | (log, Inr (pg, st)) \<Rightarrow> (finish_details url pg st, log))"

definition get_job_details :: "env \<Rightarrow> string \<Rightarrow> job_details" where
  "get_job_details e url = fst (get_job_details_log e url)"

section \<open>Searching for listings\<close>

definition extract_company_from_title :: "string \<Rightarrow> string" where
  "extract_company_from_title ttl =
     (let parts = split ttl '' - ''
      in if 1 < length parts then strip (parts ! 1) else ''Unknown Company'')"

definition domain_pattern :: re where
  \<comment> \<open>\<^verbatim>\<open>https?://(?:www\.)?([^/]+)\<close>\<close>
  "domain_pattern = seqs [lit ''http'', opt (chr CHR ''s''), lit ''://'', opt (lit ''www.''),
     Grp (plus_re (none_of ''/''))]"

definition extract_domain :: "string \<Rightarrow> string" where
  \<comment> \<open>\<^verbatim>\<open>re.findall\<close> gives the group of every match; the first one is returned\<close>
  "extract_domain url =
     (if url \<noteq> []
      then (case map (group1 url) (finditer domain_pattern url) of
              d # _ \<Rightarrow> d
            | [] \<Rightarrow> ''Unknown Source'')
      else ''Unknown Source'')"

definition is_location_char :: "char \<Rightarrow> bool" where
  \<comment> \<open>the class \<^verbatim>\<open>[A-Za-z\s,]\<close>\<close>
  "is_location_char c \<longleftrightarrow>
     c \<in> set ''ABCDEFGHIJKLMNOPQRSTUVWXYZabcdefghijklmnopqrstuvwxyz'' \<or> is_space c \<or> c = CHR '',''"

definition work_mode :: re where
  \<comment> \<open>\<^verbatim>\<open>(?:remote|hybrid|on-site)\<close>\<close>
  "work_mode = alts [liti ''remote'', liti ''hybrid'', liti ''on-site'']"

definition location_label :: re where
  \<comment> \<open>\<^verbatim>\<open>location:?\s*([^\.;]+)\<close>\<close>
  "location_label = seqs [liti ''location'', opt (chr CHR '':''), Star space,
     Grp (plus_re (none_of ''.;''))]"

definition location_in :: re where
  \<comment> \<open>\<^verbatim>\<open>in\s+([A-Za-z\s,]+(?:remote|hybrid|on-site))\<close>\<close>
  "location_in = seqs [liti ''in'', plus_re space,
     Grp (seqs [plus_re (Sym is_location_char), work_mode])]"

definition title_location :: "string \<Rightarrow> string" where
  \<comment> \<open>the location read from a title of the form \<^verbatim>\<open>X - Y in Z\<close>; empty when there is none\<close>
  "title_location ttl =
     (if sublist '' - '' ttl \<and> sublist '' in '' ttl
      then (let parts = split ttl '' - ''
            in if 1 < length parts \<and> sublist '' in '' (parts ! 1)
               then strip (split (parts ! 1) '' in '' ! 1)
               else [])
      else [])"

definition snippet_location :: "string \<Rightarrow> string" where
  \<comment> \<open>the first of the three patterns with a match gives the location: its group, or the
      whole match for the last pattern, which has no group\<close>
  "snippet_location snippet =
     (case search location_label snippet of
        Some m \<Rightarrow> strip (group1 snippet m)
      | None \<Rightarrow>
          (case search location_in snippet of
             Some m \<Rightarrow> strip (group1 snippet m)
           | None \<Rightarrow>
               (case search work_mode snippet of
                  Some m \<Rightarrow> strip (group0 snippet m)
                | None \<Rightarrow> [])))"

definition extract_location :: "string \<Rightarrow> string \<Rightarrow> string \<Rightarrow> string" where
  \<comment> \<open>\<^verbatim>\<open>title_location or snippet_location or default_location or "Not specified"\<close>\<close>
  "extract_location ttl snippet default_location =
     (case filter nonempty [title_location ttl, snippet_location snippet, default_location] of
        loc # _ \<Rightarrow> loc
      | [] \<Rightarrow> ''Not specified'')"

record listing =
  l_title :: string
  l_company :: string
  l_url :: string
  l_snippet :: string
  l_source :: string
  l_location :: string
  l_full_details :: "job_details option"

definition listing_of :: "string \<Rightarrow> result \<Rightarrow> listing" where
  "listing_of location res =
     \<lparr>l_title = strip (hd (split (get_or res ''title'' []) '' - '')),
      l_company = extract_company_from_title (get_or res ''title'' []),
      l_url = get_or res ''href'' [],
      l_snippet = get_or res ''body'' [],
      l_source = extract_domain (get_or res ''href'' []),
      l_location = extract_location (get_or res ''title'' []) (get_or res ''body'' []) location,
      l_full_details = None\<rparr>"

definition jobs_query :: "string \<Rightarrow> string \<Rightarrow> string" where
  "jobs_query query location =
     query @ '' jobs'' @ (if location \<noteq> [] then '' in '' @ location else [])"

definition search_jobs :: "env \<Rightarrow> string \<Rightarrow> string \<Rightarrow> int \<Rightarrow> listing list" where
  "search_jobs e query location num_results =
     (case ddgs_text e [] (jobs_query query location) num_results of
        Inl err \<Rightarrow> []
      | Inr results \<Rightarrow> map (listing_of location) results)"

section \<open>Scoring the fit\<close>

datatype json = JNull | JBool bool | JInt int | JStr string | JArr "json list"
  | JObj "(string \<times> json) list"

fun join :: "string \<Rightarrow> string list \<Rightarrow> string" where
  \<comment> \<open>\<^verbatim>\<open>sep.join(xs)\<close>\<close>
  "join sep [] = []"
| "join sep [x] = x"
| "join sep (x # y # ys) = x @ sep @ join sep (y # ys)"

definition fit_prompt :: "string \<Rightarrow> string \<Rightarrow> string \<Rightarrow> string" where
  "fit_prompt job_description requirements_text resume_text =
     [CHR 0x0A]
     @ ''        You are an expert career advisor and job match analyzer. Compare the candidate'' @ [CHR 0x27] @ ''s resume with the job details below.'' @ [CHR 0x0A]
     @ ''        '' @ [CHR 0x0A]
     @ ''        JOB DESCRIPTION:'' @ [CHR 0x0A]
     @ ''        '' @ job_description @ [CHR 0x0A]
     @ ''        '' @ [CHR 0x0A]
     @ ''        JOB REQUIREMENTS:'' @ [CHR 0x0A]
     @ ''        '' @ requirements_text @ [CHR 0x0A]
     @ ''        '' @ [CHR 0x0A]
     @ ''        CANDIDATE RESUME:'' @ [CHR 0x0A]
     @ ''        '' @ resume_text @ [CHR 0x0A]
     @ ''        '' @ [CHR 0x0A]
     @ ''        Please analyze how well the candidate'' @ [CHR 0x27] @ ''s resume matches this job and provide:'' @ [CHR 0x0A]
     @ ''        1. A match percentage (0-100%)'' @ [CHR 0x0A]
     @ ''        2. Key matching qualifications the candidate has'' @ [CHR 0x0A]
     @ ''        3. Important missing qualifications or experience'' @ [CHR 0x0A]
     @ ''        4. Suggestions for how the candidate could improve their resume for this specific role'' @ [CHR 0x0A]
     @ ''        5. 3-5 specific skills the candidate should develop to be a stronger match'' @ [CHR 0x0A]
     @ ''        '' @ [CHR 0x0A]
     @ ''        Format your response as a JSON object with the following keys:'' @ [CHR 0x0A]
     @ ''        - '' @ [CHR 0x22] @ ''match_percentage'' @ [CHR 0x22] @ '': a number from 0-100'' @ [CHR 0x0A]
     @ ''        - '' @ [CHR 0x22] @ ''matching_qualifications'' @ [CHR 0x22] @ '': a list of strings'' @ [CHR 0x0A]
     @ ''        - '' @ [CHR 0x22] @ ''missing_qualifications'' @ [CHR 0x22] @ '': a list of strings'' @ [CHR 0x0A]
     @ ''        - '' @ [CHR 0x22] @ ''resume_improvement_tips'' @ [CHR 0x22] @ '': a list of strings'' @ [CHR 0x0A]
     @ ''        - '' @ [CHR 0x22] @ ''skills_to_develop'' @ [CHR 0x22] @ '': a list of strings'' @ [CHR 0x0A]
     @ ''        ''"

definition fence_pattern :: re where
  \<comment> \<open>\<^verbatim>\<open>```json\s*(.*?)\s*```\<close> under \<^verbatim>\<open>re.DOTALL\<close>\<close>
  "fence_pattern = seqs [lit ''```json'', Star space, Grp (LStar any_char), Star space,
     lit ''```'']"

definition brace_pattern :: re where
  \<comment> \<open>\<^verbatim>\<open>{[\s\S]*}\<close>\<close>
  "brace_pattern = seqs [chr CHR ''{'', Star any_char, chr CHR ''}'']"

definition unparsed_analysis :: json where
  \<comment> \<open>the object for a reply in which no JSON text is found\<close>
  "unparsed_analysis = JObj
     [(''match_percentage'', JInt 50),
      (''matching_qualifications'', JArr [JStr ''Unable to parse LLM response'']),
      (''missing_qualifications'', JArr [JStr ''Unable to parse LLM response'']),
      (''resume_improvement_tips'', JArr [JStr ''Unable to parse LLM response'']),
      (''skills_to_develop'', JArr [JStr ''Unable to parse LLM response''])]"

definition error_analysis :: json where
  \<comment> \<open>the object of the \<^verbatim>\<open>except\<close> branch\<close>
  "error_analysis = JObj
     [(''match_percentage'', JInt 0),
      (''matching_qualifications'', JArr [JStr ''Error in analysis'']),
      (''missing_qualifications'', JArr [JStr ''Error in analysis'']),
      (''resume_improvement_tips'', JArr [JStr ''Unable to complete analysis'']),
      (''skills_to_develop'', JArr [JStr ''Unable to complete analysis''])]"

definition parse_reply :: "(string \<Rightarrow> json option) \<Rightarrow> string \<Rightarrow> error + json" where
  \<comment> \<open>the reading of the reply; \<open>loads\<close> is \<^verbatim>\<open>json.loads\<close>, \<open>None\<close> when it raises\<close>
  "parse_reply loads content =
     (case search fence_pattern content of
        Some m \<Rightarrow>
          (case loads (group1 content m) of Some v \<Rightarrow> Inr v | None \<Rightarrow> Inl JSONDecodeError)
      | None \<Rightarrow>
          (case search brace_pattern content of
             Some m \<Rightarrow>
               (case loads (group0 content m) of Some v \<Rightarrow> Inr v | None \<Rightarrow> Inl JSONDecodeError)
           | None \<Rightarrow> Inr unparsed_analysis))"

definition dash_item :: "string \<Rightarrow> string" where
  "dash_item req = ''- '' @ req"

definition prompt_for :: "job_details \<Rightarrow> string \<Rightarrow> string" where
  \<comment> \<open>the prompt for a job record and a resume\<close>
  "prompt_for details resume_text =
     (let requirements_text = join [CHR 0x0A] (map dash_item (requirements details))
      in fit_prompt (description details) requirements_text resume_text)"

definition analyze_job_fit ::
  "(string \<Rightarrow> json option) \<Rightarrow> (string \<Rightarrow> error + string) \<Rightarrow> job_details \<Rightarrow> string \<Rightarrow> json"
where
  \<comment> \<open>\<open>llm\<close> is \<^verbatim>\<open>llm.invoke\<close>, giving the content of the reply\<close>
  "analyze_job_fit loads llm details resume_text =
     (case llm (prompt_for details resume_text) of
        Inl err \<Rightarrow> error_analysis
      | Inr content \<Rightarrow>
          (case parse_reply loads content of
             Inl err \<Rightarrow> error_analysis
           | Inr v \<Rightarrow> v))"

definition match_percentage :: "json \<Rightarrow> json option" where
  \<comment> \<open>the entry \<^verbatim>\<open>match_percentage\<close> of an analysis, when it is an object with that key\<close>
  "match_percentage v = (case v of JObj kvs \<Rightarrow> map_of kvs ''match_percentage'' | _ \<Rightarrow> None)"

subsection \<open>A decoder of JSON texts\<close>

text \<open>
  \<^verbatim>\<open>json.loads\<close> is a parameter of the scorer above. For replies that are evaluated, the
  decoder below reads the JSON texts built from objects, arrays, strings without escape
  sequences, integers and the three literal names; it gives \<open>None\<close> where \<^verbatim>\<open>json.loads\<close>
  raises, and also for the texts with escape sequences, fractions or exponents, which it
  does not cover.
\<close>

datatype token = TLBrace | TRBrace | TLBracket | TRBracket | TColon | TComma | TAtom json | TBad

datatype lmode = LOut | LStr string | LWord string

definition int_of_digits :: "string \<Rightarrow> int" where
  "int_of_digits ds = foldl (\<lambda>n d. 10 * n + int (of_char d - of_char CHR ''0'')) 0 ds"

definition number_token :: "string \<Rightarrow> token" where
  \<comment> \<open>an integer: digits without a leading zero, after an optional minus sign\<close>
  "number_token w =
     (let ds = (if w \<noteq> [] \<and> hd w = CHR ''-'' then tl w else w)
      in if ds \<noteq> [] \<and> list_all is_digit ds \<and> (hd ds \<noteq> CHR ''0'' \<or> length ds = 1)
         then TAtom (JInt (if ds = w then int_of_digits ds else - int_of_digits ds))
         else TBad)"

definition word_token :: "string \<Rightarrow> token" where
  "word_token w =
     (if w = ''true'' then TAtom (JBool True)
      else if w = ''false'' then TAtom (JBool False)
      else if w = ''null'' then TAtom JNull
      else number_token w)"

definition is_json_space :: "char \<Rightarrow> bool" where
  "is_json_space c \<longleftrightarrow> c \<in> set [CHR 0x20, CHR 0x09, CHR 0x0A, CHR 0x0D]"

definition is_bare :: "char \<Rightarrow> bool" where
  \<comment> \<open>the characters of numbers and literal names\<close>
  "is_bare c \<longleftrightarrow> is_digit c \<or> c \<in> set ''abcdefghijklmnopqrstuvwxyzABCDEFGHIJKLMNOPQRSTUVWXYZ+-.''"

definition is_control :: "char \<Rightarrow> bool" where
  "is_control c \<longleftrightarrow> (of_char c :: nat) < 32"

definition punctuation :: "char \<Rightarrow> token" where
  "punctuation c =
     (if c = CHR ''{'' then TLBrace else if c = CHR ''}'' then TRBrace
      else if c = CHR ''['' then TLBracket else if c = CHR '']'' then TRBracket
      else if c = CHR '':'' then TColon else if c = CHR '','' then TComma
      else TBad)"

fun lex :: "lmode \<Rightarrow> string \<Rightarrow> token list" where
  "lex LOut [] = []"
| "lex (LStr acc) [] = [TBad]"
| "lex (LWord w) [] = [word_token w]"
| "lex LOut (c # cs) =
     (if is_json_space c then lex LOut cs
      else if c = CHR 0x22 then lex (LStr []) cs
      else if is_bare c then lex (LWord [c]) cs
      else punctuation c # lex LOut cs)"
| "lex (LStr acc) (c # cs) =
     (if c = CHR 0x22 then TAtom (JStr acc) # lex LOut cs
      else if c = CHR 0x5C \<or> is_control c then [TBad]
      else lex (LStr (acc @ [c])) cs)"
| "lex (LWord w) (c # cs) =
     (if is_bare c then lex (LWord (w @ [c])) cs
      else if is_json_space c then word_token w # lex LOut cs
      else if c = CHR 0x22 then word_token w # lex (LStr []) cs
      else word_token w # punctuation c # lex LOut cs)"

datatype frame = FArr "json list" | FObj "(string \<times> json) list" "string option"

datatype pstate = PValue | PArrStart | PObjStart | PKey | PColon | PAfter | PDone json

definition put_key :: "string \<Rightarrow> json \<Rightarrow> (string \<times> json) list \<Rightarrow> (string \<times> json) list" where
  \<comment> \<open>a repeated key keeps its place and takes the last value, as in a \<^verbatim>\<open>dict\<close>\<close>
  "put_key k v kvs =
     (if k \<in> fst ` set kvs then map (\<lambda>(k', v'). if k' = k then (k', v) else (k', v')) kvs
      else kvs @ [(k, v)])"

fun completed :: "frame list \<Rightarrow> json \<Rightarrow> (frame list \<times> pstate) option" where
  \<comment> \<open>a value is complete: it goes into the container that is open, if any\<close>
  "completed [] v = Some ([], PDone v)"
| "completed (FArr xs # st) v = Some (FArr (xs @ [v]) # st, PAfter)"
| "completed (FObj kvs (Some k) # st) v = Some (FObj (put_key k v kvs) None # st, PAfter)"
| "completed (FObj kvs None # st) v = None"

fun closed :: "frame list \<Rightarrow> token \<Rightarrow> (frame list \<times> pstate) option" where
  \<comment> \<open>a closing bracket or brace ends the container that is open\<close>
  "closed (FArr xs # st) TRBracket = completed st (JArr xs)"
| "closed (FObj kvs None # st) TRBrace = completed st (JObj kvs)"
| "closed st t = None"

fun value_start :: "frame list \<Rightarrow> token \<Rightarrow> (frame list \<times> pstate) option" where
  "value_start st (TAtom v) = completed st v"
| "value_start st TLBracket = Some (FArr [] # st, PArrStart)"
| "value_start st TLBrace = Some (FObj [] None # st, PObjStart)"
| "value_start st t = None"

fun key_start :: "frame list \<Rightarrow> token \<Rightarrow> (frame list \<times> pstate) option" where
  "key_start (FObj kvs None # st) (TAtom (JStr k)) = Some (FObj kvs (Some k) # st, PColon)"
| "key_start st t = None"

fun step :: "frame list \<Rightarrow> pstate \<Rightarrow> token \<Rightarrow> (frame list \<times> pstate) option" where
  "step st PValue t = value_start st t"
| "step st PArrStart t = (if t = TRBracket then closed st t else value_start st t)"
| "step st PObjStart t = (if t = TRBrace then closed st t else key_start st t)"
| "step st PKey t = key_start st t"
| "step st PColon t = (if t = TColon then Some (st, PValue) else None)"
| "step st PAfter t =
     (if t = TComma
      then (case st of FArr xs # _ \<Rightarrow> Some (st, PValue) | FObj kvs k # _ \<Rightarrow> Some (st, PKey)
            | [] \<Rightarrow> None)
      else closed st t)"
| "step st (PDone v) t = None"

fun parse :: "frame list \<Rightarrow> pstate \<Rightarrow> token list \<Rightarrow> json option" where
  "parse st (PDone v) [] = Some v"
| "parse st p [] = None"
| "parse st p (t # ts) = (case step st p t of None \<Rightarrow> None | Some (st1, p1) \<Rightarrow> parse st1 p1 ts)"

definition json_loads :: "string \<Rightarrow> json option" where
  "json_loads s = parse [] PValue (lex LOut s)"

section \<open>Example pages\<close>

text \<open>Pages and worlds for the evaluations below.\<close>

definition bare_soup :: soup where
  "bare_soup = \<lparr>select_text = (\<lambda>sel. None), title_text = None, select_href = (\<lambda>sel. None)\<rparr>"

definition fixed_page_env :: "string \<Rightarrow> string \<Rightarrow> env" where
  "fixed_page_env html text_content =
     \<lparr>http_get = (\<lambda>log url agent. Inr \<lparr>status_code = 200, body_text = html\<rparr>),
      ddgs_text = (\<lambda>log query n. Inl SearchError),
      render = (\<lambda>html. Inr \<lparr>page_soup = bare_soup, page_text = text_content\<rparr>)\<rparr>"

definition titled_soup :: "string \<Rightarrow> soup" where
  "titled_soup ttl = \<lparr>select_text = (\<lambda>sel. None), title_text = Some ttl, select_href = (\<lambda>sel. None)\<rparr>"

definition web_env ::
  "(string \<times> string) list \<Rightarrow> (string \<times> page) list \<Rightarrow> (string \<times> result list) list \<Rightarrow> env"
where
  "web_env served rendered searches =
     \<lparr>http_get = (\<lambda>log url agent.
        case map_of served url of
          Some html \<Rightarrow> Inr \<lparr>status_code = 200, body_text = html\<rparr>
        | None \<Rightarrow> Inl RequestException),
      ddgs_text = (\<lambda>log query n.
        case map_of searches query of Some rs \<Rightarrow> Inr rs | None \<Rightarrow> Inl SearchError),
      render = (\<lambda>html.
        case map_of rendered html of Some pg \<Rightarrow> Inr pg | None \<Rightarrow> Inl ParseError)\<rparr>"

definition fetched :: "result \<Rightarrow> event" where
  "fetched res = Get (get_or res ''href'' []) (user_agents ! 2)"

definition complete :: "draft \<Rightarrow> bool" where
  "complete st \<longleftrightarrow> d_description st \<noteq> [] \<and> d_requirements st \<noteq> []"

definition primary_url :: string where
  "primary_url = ''https://jobs.example.org/dev''"

definition result_a :: result where
  "result_a = [''href'' \<mapsto> ''https://a.example.org/dev'']"

definition result_b :: result where
  "result_b = [''href'' \<mapsto> ''https://b.example.org/dev'']"

definition result_c :: result where
  "result_c = [''href'' \<mapsto> ''https://c.example.org/dev'']"

definition hiring_env :: env where
  \<comment> \<open>a page with a title and no requirements; of the three alternate sources the first
      cannot be fetched and the second names a requirement\<close>
  "hiring_env = web_env
     [(primary_url, ''P''), (''https://b.example.org/dev'', ''B''),
      (''https://c.example.org/dev'', ''C'')]
     [(''P'', \<lparr>page_soup = titled_soup ''Dev - Acme'', page_text = ''Hi''\<rparr>),
      (''B'', \<lparr>page_soup = bare_soup, page_text = ''skill set.''\<rparr>),
      (''C'', \<lparr>page_soup = bare_soup, page_text = ''Hi''\<rparr>)]
     [(''Dev job description Acme'', [result_a, result_b, result_c])]"

definition primary_draft :: draft where
  "primary_draft = \<lparr>d_description = ''Hi...'', d_requirements = [],
     d_log = [Get primary_url (hd user_agents)]\<rparr>"

definition listed_a :: result where
  "listed_a = [''title'' \<mapsto> ''Developer - Acme'', ''href'' \<mapsto> ''https://a.example.org/dev'']"

definition listed_b :: result where
  "listed_b = [''title'' \<mapsto> ''Developer - Bolt'', ''href'' \<mapsto> ''https://b.example.org/dev'']"

definition listing_env :: env where
  \<comment> \<open>a search that knows one query and has two results for it\<close>
  "listing_env = web_env [] [] [(''dev jobs in Paris'', [listed_a, listed_b])]"

definition tip_body :: string where
  \<open>tip_body = ''{"tip": "use ``` fences", "match_percentage": 90}''\<close>

definition tip_reply :: string where
  "tip_reply = ''```json'' @ [CHR 0x0A] @ tip_body @ [CHR 0x0A] @ ''```''"

definition high_reply :: string where
  \<open>high_reply = ''```json'' @ [CHR 0x0A] @ ''{"match_percentage": 150}'' @ [CHR 0x0A] @ ''```''\<close>

definition good_body :: string where
  \<open>good_body = ''{"match_percentage": 85}''\<close>

definition good_reply :: string where
  "good_reply = ''Here you go:'' @ [CHR 0x0A] @ ''```json'' @ [CHR 0x0A] @ good_body @ [CHR 0x0A] @ ''```''"

definition replying :: "string \<Rightarrow> string \<Rightarrow> error + string" where
  \<comment> \<open>a service that gives the same reply to every prompt\<close>
  "replying content prompt = Inr content"

definition failing :: "string \<Rightarrow> error + string" where
  \<comment> \<open>a service that raises\<close>
  "failing prompt = Inl ServiceError"

definition bare_reply :: string where
  \<open>bare_reply = ''My estimate: {"match_percentage": -5} overall.''\<close>

definition sales_url :: string where
  "sales_url = ''https://jobs.example.org/sales-associate''"

definition repeated_text :: string where
  "repeated_text = ''Experience in sales.'' @ [CHR 0x0A, CHR 0x0A] @ ''Experience in sales.''
     @ [CHR 0x0A, CHR 0x0A]"

definition repeated_env :: env where
  \<comment> \<open>a page that says the same sentence in two paragraphs; the search for other sources
      raises\<close>
  "repeated_env = web_env [(sales_url, ''S'')]
     [(''S'', \<lparr>page_soup = titled_soup ''Sales Associate - Acme'', page_text = repeated_text\<rparr>)]
     []"





section \<open>The wording of the specification\<close>

definition trailing_segment :: "string \<Rightarrow> string" where
  \<comment> \<open>the trailing segment of a title, among those that \<^verbatim>\<open>" - "\<close> delimits\<close>
  "trailing_segment ttl = last (split ttl '' - '')"

definition href_of :: "result \<Rightarrow> string" where
  \<comment> \<open>the address of a search result\<close>
  "href_of res = get_or res ''href'' []"

definition json_looking :: "string \<Rightarrow> bool" where
  \<comment> \<open>content that looks like JSON: the opening of a fenced JSON block, or an opening brace\<close>
  "json_looking content \<longleftrightarrow> sublist ''```json'' content \<or> CHR ''{'' \<in> set content"








definition attempts :: "env \<Rightarrow> result list \<Rightarrow> draft \<Rightarrow> draft" where
  \<comment> \<open>the draft after a fetch and an extraction for each of the results, in their order\<close>
  "attempts e rs st = foldl (\<lambda>st res. fst (alt_step e res st)) st rs"

section \<open>Evaluating the matcher\<close>

text \<open>
  The equations of \<open>ms\<close> with the steps as constants: evaluation does not rewrite below
  the abstractions of the definition.
\<close>

lemma ms_code [code]:
  "ms Eps s g i = [(i, g)]"
  "ms (Sym P) s g i = (if i < length s \<and> P (s ! i) then [(Suc i, g)] else [])"
  "ms (Seq a b) s g i = List.bind (ms a s g i) (ms_next b s)"
  "ms (Alt a b) s g i = ms a s g i @ ms b s g i"
  "ms (Star a) s g i = List.bind (ms a s g i) (ms_again (Star a) s i) @ [(i, g)]"
  "ms (LStar a) s g i = (i, g) # List.bind (ms a s g i) (ms_again (LStar a) s i)"
  "ms (Grp a) s g i = map (ms_close i) (ms a s g i)"
  "ms Bol s g i = (if i = 0 then [(i, g)] else [])"
  "ms Eol s g i =
     (if i = length s \<or> (Suc i = length s \<and> s ! i = CHR 0x0A) then [(i, g)] else [])"
  "ms WordB s g i =
     (if (0 < i \<and> word_at s (i - 1)) \<noteq> word_at s i then [(i, g)] else [])"
  by (simp_all add: List.bind_def ms_next_def[abs_def] ms_again_def[abs_def]
      ms_close_def[abs_def] case_prod_unfold)

section \<open>Splitting at a separator\<close>

lemma split_from_nonempty: "split_from sep cur s \<noteq> []"
  by (induction sep cur s rule: split_from.induct) auto

lemma split_from_no_sep: "\<not> sublist sep s \<Longrightarrow> split_from sep cur s = [cur @ s]"
proof (induction s arbitrary: cur)
  case Nil
  then show ?case by simp
next
  case (Cons c cs)
  from Cons.prems have "\<not> prefix sep (c # cs)" and "\<not> sublist sep cs"
    by (auto simp: sublist_Cons_right)
  with Cons.IH [of "cur @ [c]"] show ?case by simp
qed

lemma split_from_first_sep:
  assumes "sep \<noteq> []" and "\<not> sublist sep (a @ butlast sep)"
  shows "split_from sep cur (a @ sep @ rest) = (cur @ a) # split_from sep [] rest"
  using assms(2)
proof (induction a arbitrary: cur)
  case Nil
  from assms(1) obtain c cs where sep: "sep = c # cs" by (cases sep) auto
  have "split_from sep cur (c # (cs @ rest)) = cur # split_from sep [] rest"
    by (simp add: sep)
  then show ?case by (simp add: sep)
next
  case (Cons x xs)
  have no_prefix: "\<not> prefix sep (x # (xs @ sep @ rest))"
  proof
    assume p: "prefix sep (x # (xs @ sep @ rest))"
    have q: "prefix ((x # xs) @ butlast sep) (x # (xs @ sep @ rest))"
    proof -
      have "prefix (butlast sep) (sep @ rest)"
        by (metis prefix_append prefixeq_butlast)
      then show ?thesis by simp
    qed
    have "length sep \<le> length ((x # xs) @ butlast sep)"
      using assms(1) by simp
    with p q have "prefix sep ((x # xs) @ butlast sep)"
      by (metis prefix_length_prefix)
    then have "sublist sep ((x # xs) @ butlast sep)" by (rule prefix_imp_sublist)
    with Cons.prems show False by simp
  qed
  have "\<not> sublist sep (xs @ butlast sep)"
    using Cons.prems by (auto simp: sublist_Cons_right)
  from Cons.IH [OF this, of "cur @ [x]"] no_prefix show ?case by simp
qed

lemma split_from_has_sep:
  "sep \<noteq> [] \<Longrightarrow> sublist sep s \<Longrightarrow> 1 < length (split_from sep cur s)"
proof (induction s arbitrary: cur)
  case Nil
  then show ?case by simp
next
  case (Cons c cs)
  show ?case
  proof (cases "prefix sep (c # cs)")
    case True
    with Cons.prems(1) split_from_nonempty [of sep "[]" "drop (length sep) (c # cs)"]
    show ?thesis by (cases "split_from sep [] (drop (length sep) (c # cs))") auto
  next
    case False
    with Cons.prems have "sublist sep cs" by (auto simp: sublist_Cons_right)
    with Cons.IH [OF Cons.prems(1) this, of "cur @ [c]"] False show ?thesis by simp
  qed
qed

lemma more_parts_iff:
  assumes "sep \<noteq> []"
  shows "1 < length (split s sep) \<longleftrightarrow> sublist sep s"
proof
  assume many: "1 < length (split s sep)"
  show "sublist sep s"
  proof (rule ccontr)
    assume "\<not> sublist sep s"
    then have "split s sep = [s]"
      using split_from_no_sep [of sep s "[]"] by (simp add: split_def)
    with many show False by simp
  qed
next
  assume "sublist sep s"
  with assms show "1 < length (split s sep)"
    unfolding split_def by (rule split_from_has_sep)
qed

lemma split_two_parts:
  assumes "\<not> sublist '' - '' (a @ '' -'')" and "\<not> sublist '' - '' b"
  shows "split (a @ '' - '' @ b) '' - '' = [a, b]"
  using split_from_first_sep [of "'' - ''" a "[]" b] split_from_no_sep [of "'' - ''" b "[]"] assms
  by (simp add: split_def)

lemma split_more_parts:
  assumes "\<not> sublist '' - '' (a @ '' -'')" and "\<not> sublist '' - '' (b @ '' -'')"
  shows "split (a @ '' - '' @ b @ '' - '' @ c) '' - '' = a # b # split c '' - ''"
  using split_from_first_sep [of "'' - ''" a "[]" "b @ '' - '' @ c"]
    split_from_first_sep [of "'' - ''" b "[]" c] assms
  by (simp add: split_def)

text \<open>
  Claim C6, as amended. A title without \<^verbatim>\<open>" - "\<close> gives the sentinel
  \<^verbatim>\<open>"Unknown Company"\<close>. A title with \<^verbatim>\<open>" - "\<close> gives the second segment, stripped of
  the white space around it: with one delimiter that is the (stripped) trailing segment,
  with more delimiters it is the segment between the first two.
\<close>

theorem company_is_second_segment:
  "(\<not> sublist '' - '' ttl \<longrightarrow> extract_company_from_title ttl = ''Unknown Company'')
   \<and> (\<forall>a b. ttl = a @ '' - '' @ b \<and> \<not> sublist '' - '' (a @ '' -'') \<and> \<not> sublist '' - '' b
        \<longrightarrow> extract_company_from_title ttl = strip b \<and> trailing_segment ttl = b)
   \<and> (\<forall>a b c. ttl = a @ '' - '' @ b @ '' - '' @ c \<and> \<not> sublist '' - '' (a @ '' -'')
          \<and> \<not> sublist '' - '' (b @ '' -'')
        \<longrightarrow> extract_company_from_title ttl = strip b)"
proof -
  have none: "extract_company_from_title ttl = ''Unknown Company''"
    if "\<not> sublist '' - '' ttl"
    using that more_parts_iff [of "'' - ''" ttl]
    by (simp add: extract_company_from_title_def Let_def)
  have one: "extract_company_from_title ttl = strip b \<and> trailing_segment ttl = b"
    if "ttl = a @ '' - '' @ b" "\<not> sublist '' - '' (a @ '' -'')" "\<not> sublist '' - '' b"
    for a b
    using that split_two_parts [of a b]
    by (simp add: extract_company_from_title_def trailing_segment_def)
  have more: "extract_company_from_title ttl = strip b"
    if "ttl = a @ '' - '' @ b @ '' - '' @ c" "\<not> sublist '' - '' (a @ '' -'')"
      "\<not> sublist '' - '' (b @ '' -'')"
    for a b c
    using that split_more_parts [of a b c]
    by (simp add: extract_company_from_title_def)
  from none one more show ?thesis by blast
qed

theorem company_is_second_segment_witness:
  "extract_company_from_title ''Data Engineer'' = ''Unknown Company''
   \<and> extract_company_from_title ''Data Engineer - Acme Corp '' = ''Acme Corp''
   \<and> trailing_segment ''Data Engineer - Acme Corp '' = ''Acme Corp ''
   \<and> extract_company_from_title ''Data Engineer - Acme Corp - Remote'' = ''Acme Corp''"
proof -
  have n1: "\<not> sublist '' - '' ''Data Engineer''" by code_simp
  have n2: "\<not> sublist '' - '' (''Data Engineer'' @ '' -'')" by code_simp
  have n3: "\<not> sublist '' - '' ''Acme Corp ''" by code_simp
  have n4: "\<not> sublist '' - '' (''Acme Corp'' @ '' -'')" by code_simp
  have s3: "strip ''Acme Corp '' = ''Acme Corp''" by code_simp
  have s4: "strip ''Acme Corp'' = ''Acme Corp''" by code_simp
  note t1 = company_is_second_segment [of "''Data Engineer''"]
  note t2 = company_is_second_segment [of "''Data Engineer - Acme Corp ''"]
  note t3 = company_is_second_segment [of "''Data Engineer - Acme Corp - Remote''"]
  have a: "extract_company_from_title ''Data Engineer'' = ''Unknown Company''"
    using t1 n1 by blast
  have b: "extract_company_from_title ''Data Engineer - Acme Corp '' = strip ''Acme Corp ''
      \<and> trailing_segment ''Data Engineer - Acme Corp '' = ''Acme Corp ''"
    using t2 n2 n3 by (elim conjE allE [of _ "''Data Engineer''"] allE [of _ "''Acme Corp ''"]) simp
  have c: "extract_company_from_title ''Data Engineer - Acme Corp - Remote'' = strip ''Acme Corp''"
    using t3 n2 n4
    by (elim conjE allE [of _ "''Data Engineer''"] allE [of _ "''Acme Corp''"] allE [of _ "''Remote''"]) simp
  from a b c s3 s4 show ?thesis by simp
qed

text \<open>
  Claim C6 as it is written fails for a title with two delimiters: the company is the
  second segment, not the trailing one.
\<close>

theorem company_not_trailing_segment:
  "sublist '' - '' ''Data Engineer - Acme Corp - Remote''
   \<and> trailing_segment ''Data Engineer - Acme Corp - Remote'' = ''Remote''
   \<and> extract_company_from_title ''Data Engineer - Acme Corp - Remote'' = ''Acme Corp''"
  by code_simp

section \<open>Lists without duplicates\<close>

lemma distinct_fold_keys:
  "distinct acc \<Longrightarrow>
   distinct (foldl (\<lambda>acc x. if x \<in> set acc then acc else acc @ [x]) acc xs)"
  by (induction xs arbitrary: acc) auto

lemma distinct_dict_fromkeys: "distinct (dict_fromkeys xs)"
  unfolding dict_fromkeys_def by (rule distinct_fold_keys) simp

lemma set_fold_keys:
  "set (foldl (\<lambda>acc x. if x \<in> set acc then acc else acc @ [x]) acc xs) = set acc \<union> set xs"
  by (induction xs arbitrary: acc) auto

lemma set_dict_fromkeys: "set (dict_fromkeys xs) = set xs"
  unfolding dict_fromkeys_def by (simp add: set_fold_keys)

lemma extract_job_requirements_distinct:
  "distinct (extract_job_requirements sp text_content)
   \<and> length (extract_job_requirements sp text_content) \<le> 10"
  by (simp add: extract_job_requirements_def Let_def distinct_dict_fromkeys distinct_take)

lemma extract_benefits_distinct:
  "distinct (extract_benefits text_content) \<and> length (extract_benefits text_content) \<le> 8"
  by (simp add: extract_benefits_def Let_def distinct_dict_fromkeys distinct_take)

lemma fallback_requirements_length: "length (fallback_requirements url text_content) \<le> 10"
  by (simp add: fallback_requirements_def Let_def)

section \<open>The description is never empty\<close>

lemma extract_job_description_nonempty: "extract_job_description sp text_content \<noteq> []"
  by (simp add: extract_job_description_def Let_def)

lemma alt_step_description:
  "d_description st \<noteq> [] \<Longrightarrow> d_description (fst (alt_step e res st)) = d_description st"
  by (simp add: alt_step_def Let_def split: sum.splits)

lemma alt_loop_description:
  "d_description st \<noteq> [] \<Longrightarrow> d_description (alt_loop e rs st) = d_description st"
proof (induction rs arbitrary: st)
  case Nil
  then show ?case by simp
next
  case (Cons res rs)
  obtain st1 stop where step: "alt_step e res st = (st1, stop)" by (cases "alt_step e res st")
  with alt_step_description [OF Cons.prems, of e res] have keep: "d_description st1 = d_description st"
    by simp
  with Cons.prems have "d_description st1 \<noteq> []" by simp
  from Cons.IH [OF this] keep step show ?case by simp
qed

lemma recover_description:
  "d_description st \<noteq> [] \<Longrightarrow> d_description (recover e sp st) = d_description st"
  by (simp add: recover_def Let_def alt_loop_description split: prod.splits sum.splits)

text \<open>
  Claim C10. \<open>extract_job_description\<close> gives a non-empty string for every parsed page and
  every text, the empty text included: its last fallback is the first 500 characters of the
  text followed by three dots. So, when the body of \<open>get_job_details\<close> reaches the end of
  the search for alternate sources, the description is the one the first extraction gave,
  it is not empty, and the fallback that writes a description from the URL is not taken: the
  record carries the extracted description.
\<close>

theorem description_branch_unreachable:
  "extract_job_description sp text_content \<noteq> []
   \<and> (\<forall>log pg st. extract_with_recovery e url = (log, Inr (pg, st)) \<longrightarrow>
        d_description st = extract_job_description (page_soup pg) (page_text pg)
        \<and> d_description st \<noteq> []
        \<and> description (finish_details url pg st) = d_description st)"
proof -
  have "d_description st = extract_job_description (page_soup pg) (page_text pg)
        \<and> d_description st \<noteq> []
        \<and> description (finish_details url pg st) = d_description st"
    if h: "extract_with_recovery e url = (log, Inr (pg, st))" for log pg st
  proof -
    from h have st: "st = recover e (page_soup pg)
        \<lparr>d_description = extract_job_description (page_soup pg) (page_text pg),
         d_requirements = extract_job_requirements (page_soup pg) (page_text pg),
         d_log = fst (fetch e url [])\<rparr>"
      by (auto simp: extract_with_recovery_def Let_def split: prod.splits sum.splits)
    have "d_description st = extract_job_description (page_soup pg) (page_text pg)"
      unfolding st by (simp add: recover_description extract_job_description_nonempty)
    then show ?thesis
      by (simp add: extract_job_description_nonempty finish_details_def Let_def)
  qed
  with extract_job_description_nonempty show ?thesis by blast
qed

lemma fixed_page_fetch:
  "fetch (fixed_page_env html t) url [] =
     ([Get url (hd user_agents)], Inr \<lparr>status_code = 200, body_text = html\<rparr>)"
  by (simp add: fetch_def fixed_page_env_def raise_for_status_def)

lemma fixed_page_recover: "recover (fixed_page_env html t) bare_soup st = st"
  by (simp add: recover_def page_title_def bare_soup_def)

lemma fixed_page_render:
  "render (fixed_page_env html t) h = Inr \<lparr>page_soup = bare_soup, page_text = t\<rparr>"
  by (simp add: fixed_page_env_def)

lemma fixed_page_extract:
  "extract_with_recovery (fixed_page_env html t) url =
     ([Get url (hd user_agents)],
      Inr (\<lparr>page_soup = bare_soup, page_text = t\<rparr>,
           \<lparr>d_description = extract_job_description bare_soup t,
            d_requirements = extract_job_requirements bare_soup t,
            d_log = [Get url (hd user_agents)]\<rparr>))"
  by (simp add: extract_with_recovery_def fixed_page_fetch fixed_page_render
      fixed_page_recover Let_def)

lemma no_match_in_empty: "first_search description_patterns [] = None"
  by code_simp

lemma empty_page_description: "extract_job_description bare_soup [] = ''...''"
  by (simp add: extract_job_description_def bare_soup_def description_selectors_def
      List.map_filter_def Let_def no_match_in_empty)

theorem description_branch_unreachable_witness:
  "extract_job_description bare_soup [] = ''...''
   \<and> description (get_job_details (fixed_page_env [] []) ''https://example.org/jobs/data-engineer'')
       = ''...''"
proof -
  let ?url = "''https://example.org/jobs/data-engineer''"
  let ?pg = "\<lparr>page_soup = bare_soup, page_text = []\<rparr>"
  let ?st = "\<lparr>d_description = extract_job_description bare_soup [],
              d_requirements = extract_job_requirements bare_soup [],
              d_log = [Get ?url (hd user_agents)]\<rparr>"
  have run: "extract_with_recovery (fixed_page_env [] []) ?url
      = ([Get ?url (hd user_agents)], Inr (?pg, ?st))"
    by (rule fixed_page_extract)
  from description_branch_unreachable [of bare_soup "[]" "fixed_page_env [] []" ?url] run
  have "description (finish_details ?url ?pg ?st) = d_description ?st"
    by blast
  with run show ?thesis
    by (simp add: get_job_details_def get_job_details_log_def empty_page_description)
qed

section \<open>The search for alternate sources\<close>

lemma alt_step_log: "d_log (fst (alt_step e res st)) = d_log st @ [fetched res]"
  by (simp add: alt_step_def fetched_def Let_def split: sum.splits)

lemma alt_step_stop_complete: "snd (alt_step e res st) \<Longrightarrow> complete (fst (alt_step e res st))"
  by (auto simp: alt_step_def complete_def Let_def split: sum.splits if_splits)

lemma alt_step_go_on:
  "\<not> complete st \<Longrightarrow> \<not> snd (alt_step e res st) \<Longrightarrow> \<not> complete (fst (alt_step e res st))"
  by (auto simp: alt_step_def complete_def Let_def split: sum.splits if_splits)

lemma attempts_Nil: "attempts e [] st = st"
  by (simp add: attempts_def)

lemma attempts_Cons: "attempts e (res # rs) st = attempts e rs (fst (alt_step e res st))"
  by (simp add: attempts_def)

lemma attempts_log: "d_log (attempts e rs st) = d_log st @ map fetched rs"
  by (induction rs arbitrary: st) (simp_all add: attempts_Nil attempts_Cons alt_step_log)

lemma alt_loop_attempts:
  "\<not> complete st \<Longrightarrow>
   \<exists>k\<le>length rs. alt_loop e rs st = attempts e (take k rs) st
     \<and> (\<forall>n<k. \<not> complete (attempts e (take n rs) st))
     \<and> (k < length rs \<longrightarrow> complete (alt_loop e rs st))"
proof (induction rs arbitrary: st)
  case Nil
  then show ?case by (simp add: attempts_Nil)
next
  case (Cons res rs)
  obtain st1 stop where step: "alt_step e res st = (st1, stop)" by (cases "alt_step e res st")
  show ?case
  proof (cases stop)
    case True
    with step alt_step_stop_complete [of e res st] have c1: "complete st1" by simp
    from step True have l1: "alt_loop e (res # rs) st = st1" by simp
    from step have a1: "attempts e (take 1 (res # rs)) st = st1"
      by (simp add: attempts_Nil attempts_Cons)
    have "\<not> complete (attempts e (take n (res # rs)) st)" if "n < 1" for n
      using that Cons.prems by (simp add: attempts_Nil)
    with l1 a1 c1
    have "alt_loop e (res # rs) st = attempts e (take 1 (res # rs)) st
        \<and> (\<forall>n<1. \<not> complete (attempts e (take n (res # rs)) st))
        \<and> (1 < length (res # rs) \<longrightarrow> complete (alt_loop e (res # rs) st))"
      by simp
    moreover have "1 \<le> length (res # rs)" by simp
    ultimately show ?thesis by blast
  next
    case False
    with step alt_step_go_on [OF Cons.prems, of e res] have open1: "\<not> complete st1" by simp
    from Cons.IH [OF open1] obtain k where k: "k \<le> length rs"
      and run: "alt_loop e rs st1 = attempts e (take k rs) st1"
      and before: "\<forall>n<k. \<not> complete (attempts e (take n rs) st1)"
      and stopped: "k < length rs \<longrightarrow> complete (alt_loop e rs st1)"
      by blast
    have "\<not> complete (attempts e (take n (res # rs)) st)" if "n < Suc k" for n
    proof (cases n)
      case 0
      with Cons.prems show ?thesis by (simp add: attempts_Nil)
    next
      case (Suc m)
      with that before step show ?thesis by (simp add: attempts_Cons)
    qed
    with step False run stopped
    have "alt_loop e (res # rs) st = attempts e (take (Suc k) (res # rs)) st
        \<and> (\<forall>n<Suc k. \<not> complete (attempts e (take n (res # rs)) st))
        \<and> (Suc k < length (res # rs) \<longrightarrow> complete (alt_loop e (res # rs) st))"
      by (simp add: attempts_Cons)
    moreover from k have "Suc k \<le> length (res # rs)" by simp
    ultimately show ?thesis by blast
  qed
qed

text \<open>
  Claim C2, as amended. The search for alternate sources is made exactly when the
  description or the list of requirements of the first extraction is empty (one of them is
  enough) and the title tag of the page gives a non-empty title; otherwise nothing is
  searched or fetched. When it is made, one search with a limit of 3 is issued. When that
  search raises, nothing is fetched. Otherwise its results are fetched in their order, each
  fetch filling the fields that are still empty: the loop goes on as long as the description
  or the requirements are empty, and stops after the first result that leaves both
  non-empty. So the results fetched are the first \<open>k\<close> ones, where no shorter run of fetches
  gives both fields, and either the run of \<open>k\<close> fetches gives both or every result was
  fetched.
\<close>

theorem recovery_until_complete:
  "(\<not> ((d_description st = [] \<or> d_requirements st = []) \<and> fst (page_title sp) \<noteq> [])
      \<longrightarrow> recover e sp st = st)
   \<and> ((d_description st = [] \<or> d_requirements st = []) \<and> fst (page_title sp) \<noteq> []
      \<longrightarrow> (case ddgs_text e (d_log st)
                  (recovery_query (fst (page_title sp)) (snd (page_title sp))) 3 of
            Inl err \<Rightarrow>
              recover e sp st
                = st\<lparr>d_log := d_log st
                    @ [Search (recovery_query (fst (page_title sp)) (snd (page_title sp))) 3]\<rparr>
          | Inr alt_results \<Rightarrow>
              (\<exists>k\<le>length alt_results.
                 recover e sp st
                   = attempts e (take k alt_results)
                       (st\<lparr>d_log := d_log st
                         @ [Search (recovery_query (fst (page_title sp)) (snd (page_title sp))) 3]\<rparr>)
                 \<and> d_log (recover e sp st)
                   = d_log st
                     @ Search (recovery_query (fst (page_title sp)) (snd (page_title sp))) 3
                       # map fetched (take k alt_results)
                 \<and> (\<forall>n<k. \<not> complete (attempts e (take n alt_results)
                       (st\<lparr>d_log := d_log st
                         @ [Search (recovery_query (fst (page_title sp)) (snd (page_title sp))) 3]\<rparr>)))
                 \<and> (k < length alt_results \<longrightarrow> complete (recover e sp st)))))"
proof -
  let ?q = "recovery_query (fst (page_title sp)) (snd (page_title sp))"
  let ?st1 = "st\<lparr>d_log := d_log st @ [Search ?q 3]\<rparr>"
  have skipped: "recover e sp st = st"
    if "\<not> ((d_description st = [] \<or> d_requirements st = []) \<and> fst (page_title sp) \<noteq> [])"
    using that by (auto simp: recover_def split: prod.splits)
  have performed: "case ddgs_text e (d_log st) ?q 3 of
        Inl err \<Rightarrow> recover e sp st = ?st1
      | Inr alt_results \<Rightarrow>
          (\<exists>k\<le>length alt_results.
             recover e sp st = attempts e (take k alt_results) ?st1
             \<and> d_log (recover e sp st) = d_log st @ Search ?q 3 # map fetched (take k alt_results)
             \<and> (\<forall>n<k. \<not> complete (attempts e (take n alt_results) ?st1))
             \<and> (k < length alt_results \<longrightarrow> complete (recover e sp st)))"
    if h: "(d_description st = [] \<or> d_requirements st = []) \<and> fst (page_title sp) \<noteq> []"
  proof (cases "ddgs_text e (d_log st) ?q 3")
    case (Inl err)
    with h have "recover e sp st = ?st1"
      by (auto simp: recover_def Let_def split: prod.splits)
    with Inl show ?thesis by simp
  next
    case (Inr alt_results)
    with h have r: "recover e sp st = alt_loop e alt_results ?st1"
      by (auto simp: recover_def Let_def split: prod.splits)
    from h have "\<not> complete ?st1" by (auto simp: complete_def)
    from alt_loop_attempts [OF this, of alt_results e] obtain k where k: "k \<le> length alt_results"
      and run: "alt_loop e alt_results ?st1 = attempts e (take k alt_results) ?st1"
      and before: "\<forall>n<k. \<not> complete (attempts e (take n alt_results) ?st1)"
      and stopped: "k < length alt_results \<longrightarrow> complete (alt_loop e alt_results ?st1)"
      by blast
    from run have "d_log (alt_loop e alt_results ?st1)
        = d_log st @ Search ?q 3 # map fetched (take k alt_results)"
      by (simp add: attempts_log)
    with r k run before stopped have "\<exists>k\<le>length alt_results.
             recover e sp st = attempts e (take k alt_results) ?st1
             \<and> d_log (recover e sp st) = d_log st @ Search ?q 3 # map fetched (take k alt_results)
             \<and> (\<forall>n<k. \<not> complete (attempts e (take n alt_results) ?st1))
             \<and> (k < length alt_results \<longrightarrow> complete (recover e sp st))"
      by (intro exI [of _ k]) simp
    with Inr show ?thesis by simp
  qed
  from skipped performed show ?thesis by blast
qed

lemma requirements_ignore_soup:
  "extract_job_requirements sp text_content = extract_job_requirements bare_soup text_content"
  by (simp add: extract_job_requirements_def)

lemma hi_no_description_pattern: "first_search description_patterns ''Hi'' = None"
  by code_simp

lemma hi_description: "extract_job_description (titled_soup ttl) ''Hi'' = ''Hi...''"
  by (simp add: extract_job_description_def titled_soup_def description_selectors_def
      List.map_filter_def Let_def hi_no_description_pattern)

lemma hi_no_requirements: "extract_job_requirements bare_soup ''Hi'' = []"
  by code_simp

lemma skill_set_requirements: "extract_job_requirements bare_soup ''skill set.'' = [''skill set.'']"
  by code_simp

lemma dev_acme_title: "page_title (titled_soup ''Dev - Acme'') = (''Dev'', ''Acme'')"
  by code_simp

lemma bare_title: "page_title bare_soup = ([], [])"
  by (simp add: page_title_def bare_soup_def)

lemma hiring_search:
  "ddgs_text hiring_env log ''Dev job description Acme'' 3 = Inr [result_a, result_b, result_c]"
  by (simp add: hiring_env_def web_env_def)

lemma hiring_step_a:
  "alt_step hiring_env result_a st = (st\<lparr>d_log := d_log st @ [fetched result_a]\<rparr>, False)"
  by (simp add: alt_step_def fetched_def result_a_def get_or_def hiring_env_def web_env_def
      primary_url_def Let_def)

lemma hiring_step_b:
  "d_description st \<noteq> [] \<Longrightarrow> d_requirements st = [] \<Longrightarrow>
   alt_step hiring_env result_b st
     = (st\<lparr>d_log := d_log st @ [fetched result_b], d_requirements := [''skill set.'']\<rparr>, True)"
  by (simp add: alt_step_def fetched_def result_b_def get_or_def hiring_env_def web_env_def
      primary_url_def Let_def skill_set_requirements)

lemma hiring_recover:
  "recover hiring_env (titled_soup ''Dev - Acme'') primary_draft
     = primary_draft\<lparr>d_log := d_log primary_draft
           @ [Search ''Dev job description Acme'' 3, fetched result_a, fetched result_b],
         d_requirements := [''skill set.'']\<rparr>"
  by (simp add: recover_def dev_acme_title recovery_query_def hiring_search hiring_step_a
      hiring_step_b primary_draft_def Let_def)

lemma hiring_extract:
  "extract_with_recovery hiring_env primary_url
     = ([Get primary_url (hd user_agents), Search ''Dev job description Acme'' 3,
         fetched result_a, fetched result_b],
        Inr (\<lparr>page_soup = titled_soup ''Dev - Acme'', page_text = ''Hi''\<rparr>,
             \<lparr>d_description = ''Hi...'', d_requirements = [''skill set.''],
              d_log = [Get primary_url (hd user_agents),
                Search ''Dev job description Acme'' 3, fetched result_a, fetched result_b]\<rparr>))"
proof -
  have f: "fetch hiring_env primary_url []
      = ([Get primary_url (hd user_agents)], Inr \<lparr>status_code = 200, body_text = ''P''\<rparr>)"
    by (simp add: fetch_def hiring_env_def web_env_def raise_for_status_def)
  have r: "render hiring_env ''P''
      = Inr \<lparr>page_soup = titled_soup ''Dev - Acme'', page_text = ''Hi''\<rparr>"
    by (simp add: hiring_env_def web_env_def)
  have q: "extract_job_requirements (titled_soup ''Dev - Acme'') ''Hi'' = []"
    by (metis requirements_ignore_soup hi_no_requirements)
  have d: "\<lparr>d_description = ''Hi...'', d_requirements = [],
      d_log = [Get primary_url (hd user_agents)]\<rparr> = primary_draft"
    by (simp add: primary_draft_def)
  show ?thesis
    by (simp add: extract_with_recovery_def f r q hi_description d hiring_recover Let_def)
      (simp add: primary_draft_def)
qed

lemma offline_search: "ddgs_text (fixed_page_env html t) log q n = Inl SearchError"
  by (simp add: fixed_page_env_def)

theorem recovery_until_complete_witness:
  "recover hiring_env bare_soup primary_draft = primary_draft
   \<and> recover (fixed_page_env [] []) (titled_soup ''Dev - Acme'') primary_draft
       = primary_draft\<lparr>d_log := d_log primary_draft @ [Search ''Dev job description Acme'' 3]\<rparr>
   \<and> recover hiring_env (titled_soup ''Dev - Acme'') primary_draft
       = attempts hiring_env [result_a, result_b]
           (primary_draft\<lparr>d_log := d_log primary_draft @ [Search ''Dev job description Acme'' 3]\<rparr>)
   \<and> d_log (recover hiring_env (titled_soup ''Dev - Acme'') primary_draft)
       = d_log primary_draft
         @ [Search ''Dev job description Acme'' 3, fetched result_a, fetched result_b]
   \<and> \<not> complete (attempts hiring_env [result_a]
           (primary_draft\<lparr>d_log := d_log primary_draft @ [Search ''Dev job description Acme'' 3]\<rparr>))
   \<and> complete (recover hiring_env (titled_soup ''Dev - Acme'') primary_draft)"
proof -
  let ?sp = "titled_soup ''Dev - Acme''"
  let ?rs = "[result_a, result_b, result_c]"
  let ?st1 = "primary_draft\<lparr>d_log := d_log primary_draft @ [Search ''Dev job description Acme'' 3]\<rparr>"
  note t1 = recovery_until_complete [of primary_draft bare_soup hiring_env]
  note t2 = recovery_until_complete [of primary_draft ?sp "fixed_page_env [] []"]
  note t3 = recovery_until_complete [of primary_draft ?sp hiring_env]
  have missing: "d_description primary_draft \<noteq> []" "d_requirements primary_draft = []"
    by (simp_all add: primary_draft_def)
  have a: "recover hiring_env bare_soup primary_draft = primary_draft"
    using t1 by (simp add: bare_title)
  have b: "recover (fixed_page_env [] []) ?sp primary_draft = ?st1"
    using t2 missing by (simp add: dev_acme_title recovery_query_def offline_search)
  have n0: "\<not> complete (attempts hiring_env (take 0 ?rs) ?st1)"
    by (simp add: attempts_Nil complete_def missing)
  have n1: "\<not> complete (attempts hiring_env (take 1 ?rs) ?st1)"
    by (simp add: attempts_Nil attempts_Cons hiring_step_a complete_def missing)
  have n2: "complete (attempts hiring_env (take 2 ?rs) ?st1)"
    by (simp add: numeral_2_eq_2 attempts_Nil attempts_Cons hiring_step_a hiring_step_b
        complete_def missing)
  from t3 missing obtain k where k: "k \<le> length ?rs"
    and run: "recover hiring_env ?sp primary_draft = attempts hiring_env (take k ?rs) ?st1"
    and log: "d_log (recover hiring_env ?sp primary_draft)
        = d_log primary_draft @ Search ''Dev job description Acme'' 3 # map fetched (take k ?rs)"
    and before: "\<forall>n<k. \<not> complete (attempts hiring_env (take n ?rs) ?st1)"
    and stopped: "k < length ?rs \<longrightarrow> complete (recover hiring_env ?sp primary_draft)"
    by (auto simp: dev_acme_title recovery_query_def hiring_search)
  from before n2 have "\<not> 2 < k" by blast
  moreover have "k \<noteq> 0"
  proof
    assume "k = 0"
    with stopped run n0 show False by simp
  qed
  moreover have "k \<noteq> 1"
  proof
    assume "k = 1"
    with stopped run n1 show False by simp
  qed
  ultimately have k2: "k = 2" by arith
  from run log n1 n2 a b show ?thesis
    unfolding k2 by (simp add: numeral_2_eq_2)
qed

text \<open>
  Claim C2 as it is written fails: on a page whose first extraction gives a description and
  no requirements, the alternate sources are searched and fetched.
\<close>

theorem recovery_with_a_description:
  "extract_job_description (titled_soup ''Dev - Acme'') ''Hi'' = ''Hi...''
   \<and> extract_job_requirements (titled_soup ''Dev - Acme'') ''Hi'' = []
   \<and> snd (get_job_details_log hiring_env primary_url)
       = [Get primary_url (hd user_agents), Search ''Dev job description Acme'' 3,
          Get ''https://a.example.org/dev'' (user_agents ! 2),
          Get ''https://b.example.org/dev'' (user_agents ! 2)]"
proof -
  have q: "extract_job_requirements (titled_soup ''Dev - Acme'') ''Hi'' = []"
    by (metis requirements_ignore_soup hi_no_requirements)
  have "snd (get_job_details_log hiring_env primary_url)
      = [Get primary_url (hd user_agents), Search ''Dev job description Acme'' 3,
         fetched result_a, fetched result_b]"
    by (simp add: get_job_details_log_def hiring_extract)
  then show ?thesis
    by (simp add: hi_description q fetched_def result_a_def result_b_def get_or_def)
qed

section \<open>The search adapter\<close>

text \<open>
  Claim C5. \<open>search_jobs\<close> returns a list in every case: when the search raises, the list
  is empty; when the search returns no result, the list is empty; otherwise there is one
  listing for each result of the search, in the order of the search. The limit is handed to
  the search as \<^verbatim>\<open>max_results\<close>: for a limit that is not negative and a search that returns
  at most \<^verbatim>\<open>max_results\<close> results, the list is not longer than the limit.
\<close>

theorem search_jobs_within_limit:
  "(\<forall>err. ddgs_text e [] (jobs_query query location) n = Inl err
      \<longrightarrow> search_jobs e query location n = [])
   \<and> (ddgs_text e [] (jobs_query query location) n = Inr []
      \<longrightarrow> search_jobs e query location n = [])
   \<and> (\<forall>results. ddgs_text e [] (jobs_query query location) n = Inr results
      \<longrightarrow> search_jobs e query location n = map (listing_of location) results
        \<and> map l_url (search_jobs e query location n) = map href_of results)
   \<and> (0 \<le> n
        \<and> (\<forall>results. ddgs_text e [] (jobs_query query location) n = Inr results
              \<longrightarrow> int (length results) \<le> n)
      \<longrightarrow> int (length (search_jobs e query location n)) \<le> n)"
proof -
  have failed: "search_jobs e query location n = []"
    if "ddgs_text e [] (jobs_query query location) n = Inl err" for err
    using that by (simp add: search_jobs_def)
  have listed: "search_jobs e query location n = map (listing_of location) results"
    if "ddgs_text e [] (jobs_query query location) n = Inr results" for results
    using that by (simp add: search_jobs_def)
  have urls: "map l_url (map (listing_of location) results) = map href_of results" for results
    by (simp add: listing_of_def href_of_def)
  have bounded: "int (length (search_jobs e query location n)) \<le> n"
    if "0 \<le> n"
      and "\<forall>results. ddgs_text e [] (jobs_query query location) n = Inr results
              \<longrightarrow> int (length results) \<le> n"
  proof (cases "ddgs_text e [] (jobs_query query location) n")
    case (Inl err)
    with failed that(1) show ?thesis by simp
  next
    case (Inr results)
    with listed that(2) show ?thesis by simp
  qed
  have empty: "search_jobs e query location n = []"
    if "ddgs_text e [] (jobs_query query location) n = Inr []"
    using listed [OF that] by simp
  from failed empty listed urls bounded show ?thesis by metis
qed

theorem search_jobs_within_limit_witness:
  "search_jobs listing_env ''qa'' [] 5 = []
   \<and> map l_url (search_jobs listing_env ''dev'' ''Paris'' 5)
       = [''https://a.example.org/dev'', ''https://b.example.org/dev'']
   \<and> map l_company (search_jobs listing_env ''dev'' ''Paris'' 5) = [''Acme'', ''Bolt'']
   \<and> int (length (search_jobs listing_env ''dev'' ''Paris'' 5)) \<le> 5"
proof -
  note t1 = search_jobs_within_limit [of listing_env "''qa''" "[]" 5]
  note t2 = search_jobs_within_limit [of listing_env "''dev''" "''Paris''" 5]
  have q1: "ddgs_text listing_env [] (jobs_query ''qa'' []) 5 = Inl SearchError"
    by (simp add: listing_env_def web_env_def jobs_query_def)
  have q2: "ddgs_text listing_env [] (jobs_query ''dev'' ''Paris'') 5 = Inr [listed_a, listed_b]"
    by (simp add: listing_env_def web_env_def jobs_query_def)
  have few: "\<forall>results. ddgs_text listing_env [] (jobs_query ''dev'' ''Paris'') 5 = Inr results
      \<longrightarrow> int (length results) \<le> 5"
    by (simp add: q2)
  have hrefs: "map href_of [listed_a, listed_b]
      = [''https://a.example.org/dev'', ''https://b.example.org/dev'']"
    by (simp add: href_of_def get_or_def listed_a_def listed_b_def)
  have companies: "map l_company (map (listing_of ''Paris'') [listed_a, listed_b])
      = [''Acme'', ''Bolt'']"
    by code_simp
  from t1 q1 have a: "search_jobs listing_env ''qa'' [] 5 = []" by blast
  from t2 q2 have b1: "search_jobs listing_env ''dev'' ''Paris'' 5
        = map (listing_of ''Paris'') [listed_a, listed_b]"
    and b2: "map l_url (search_jobs listing_env ''dev'' ''Paris'' 5)
        = map href_of [listed_a, listed_b]"
    by blast+
  from t2 few have c: "int (length (search_jobs listing_env ''dev'' ''Paris'' 5)) \<le> 5"
    by simp
  from b2 hrefs have urls: "map l_url (search_jobs listing_env ''dev'' ''Paris'' 5)
      = [''https://a.example.org/dev'', ''https://b.example.org/dev'']"
    by (simp only:)
  from b1 companies
  have names: "map l_company (search_jobs listing_env ''dev'' ''Paris'' 5) = [''Acme'', ''Bolt'']"
    by (simp only:)
  from a urls names c show ?thesis by blast
qed

section \<open>Facts about the matcher\<close>

lemma take_drop_Cons_iff:
  "take (Suc n) (drop i s) = c # w \<longleftrightarrow> i < length s \<and> s ! i = c \<and> take n (drop (Suc i) s) = w"
proof (cases "i < length s")
  case True
  then have "drop i s = s ! i # drop (Suc i) s" by (simp add: Cons_nth_drop_Suc)
  with True show ?thesis by simp
next
  case False
  then show ?thesis by simp
qed

lemma ms_Sym_Seq:
  "ms (Seq (Sym P) r) s g i = (if i < length s \<and> P (s ! i) then ms r s g (Suc i) else [])"
  by auto

lemma ms_Seq_Eps: "ms (Seq a Eps) s g i = ms a s g i"
proof -
  have "concat (map (\<lambda>(j, h). [(j, h)]) xs) = xs" for xs :: "(nat \<times> cap) list"
    by (induction xs) auto
  then show ?thesis by simp
qed

lemma lit_Nil: "lit [] = Eps"
  by (simp add: lit_def seqs_def)

lemma lit_Cons: "lit (c # w) = Seq (chr c) (lit w)"
  by (simp add: lit_def seqs_def)



lemma ms_lit:
  "ms (lit w) s g i = (if take (length w) (drop i s) = w then [(i + length w, g)] else [])"
proof (induction w arbitrary: i)
  case Nil
  then show ?case by (simp add: lit_Nil)
next
  case (Cons c w)
  show ?case
    unfolding lit_Cons chr_def ms_Sym_Seq Cons.IH
    by (auto simp: take_drop_Cons_iff)
qed


lemma occurs_at_sublist: "take (length w) (drop i s) = w \<Longrightarrow> sublist w s"
proof -
  assume "take (length w) (drop i s) = w"
  then have "s = take i s @ w @ drop (length w) (drop i s)"
    by (metis append_take_drop_id)
  then show ?thesis unfolding sublist_def by blast
qed


lemma length_lower [simp]: "length (lower s) = length s"
  by (simp add: lower_def)

lemma ms_lit_absent: "\<not> sublist w s \<Longrightarrow> ms (lit w) s g i = []"
  using occurs_at_sublist [of w i s] by (auto simp: ms_lit)


lemma ms_Seq_first_empty: "ms a s g i = [] \<Longrightarrow> ms (Seq a b) s g i = []"
  by simp



lemma search_from_none: "(\<And>j. ms r s None j = []) \<Longrightarrow> search_from r s i n = None"
  by (induction n arbitrary: i) auto

lemma search_none: "(\<And>j. ms r s None j = []) \<Longrightarrow> search r s = None"
  by (simp add: search_def search_at_def search_from_none)

lemma search_from_skip:
  "(\<And>j. i \<le> j \<Longrightarrow> j < i + k \<Longrightarrow> ms r s None j = []) \<Longrightarrow>
   search_from r s i (k + n) = search_from r s (i + k) n"
proof (induction k arbitrary: i)
  case 0
  then show ?case by simp
next
  case (Suc k)
  have "ms r s None i = []" using Suc.prems [of i] by simp
  moreover have "search_from r s (Suc i) (k + n) = search_from r s (Suc i + k) n"
    using Suc.prems by (intro Suc.IH) simp_all
  ultimately show ?case by simp
qed

declare ms.simps [simp del]

lemma ms_lit_Seq:
  "ms (Seq (lit w) r) s g i =
     (if take (length w) (drop i s) = w then ms r s g (i + length w) else [])"
  by (simp add: ms_lit ms.simps(3))

lemma ms_Star_Sym_unroll:
  "ms (Star (Sym P)) s g i =
     (if i < length s \<and> P (s ! i) then ms (Star (Sym P)) s g (Suc i) @ [(i, g)] else [(i, g)])"
  by (subst ms.simps(5)) (auto simp: ms.simps(2))

lemma ms_LStar_Sym_unroll:
  "ms (LStar (Sym P)) s g i =
     (if i < length s \<and> P (s ! i) then (i, g) # ms (LStar (Sym P)) s g (Suc i) else [(i, g)])"
  by (subst ms.simps(6)) (auto simp: ms.simps(2))

lemma rev_upt_first: "i \<le> j \<Longrightarrow> rev [i ..< Suc j] = rev [Suc i ..< Suc j] @ [i]"
  by (simp add: upt_conv_Cons del: upt_Suc)

lemma ms_Star_Sym:
  "ms (Star (Sym P)) s g i =
     map (\<lambda>j. (j, g)) (rev [i ..< Suc (i + length (takeWhile P (drop i s)))])"
proof (induction "length s - i" arbitrary: i)
  case 0
  then have "drop i s = []" and "\<not> i < length s" by simp_all
  then show ?case by (subst ms_Star_Sym_unroll) simp
next
  case (Suc n)
  then have lt: "i < length s" by simp
  then have d: "drop i s = s ! i # drop (Suc i) s" by (simp add: Cons_nth_drop_Suc)
  show ?case
  proof (cases "P (s ! i)")
    case True
    have "n = length s - Suc i" using Suc.hyps(2) by simp
    from Suc.hyps(1) [OF this]
    have ih: "ms (Star (Sym P)) s g (Suc i) =
        map (\<lambda>j. (j, g)) (rev [Suc i ..< Suc (Suc i + length (takeWhile P (drop (Suc i) s)))])" .
    have len: "length (takeWhile P (drop i s)) = Suc (length (takeWhile P (drop (Suc i) s)))"
      using d True by simp
    have "ms (Star (Sym P)) s g i = ms (Star (Sym P)) s g (Suc i) @ [(i, g)]"
      using lt True by (subst ms_Star_Sym_unroll) simp
    also have "\<dots> = map (\<lambda>j. (j, g))
        (rev [Suc i ..< Suc (i + length (takeWhile P (drop i s)))] @ [i])"
      unfolding ih len by simp
    also have "rev [Suc i ..< Suc (i + length (takeWhile P (drop i s)))] @ [i]
        = rev [i ..< Suc (i + length (takeWhile P (drop i s)))]"
      by (rule rev_upt_first [symmetric]) simp
    finally show ?thesis .
  next
    case False
    with d lt show ?thesis by (subst ms_Star_Sym_unroll) simp
  qed
qed

lemma ms_LStar_any:
  "i \<le> length s \<Longrightarrow> ms (LStar any_char) s g i = map (\<lambda>j. (j, g)) [i ..< Suc (length s)]"
proof (induction "length s - i" arbitrary: i)
  case 0
  then have "i = length s" by simp
  then show ?case unfolding any_char_def by (subst ms_LStar_Sym_unroll) simp
next
  case (Suc n)
  then have lt: "i < length s" by simp
  have "n = length s - Suc i" using Suc.hyps(2) by simp
  moreover have "Suc i \<le> length s" using lt by simp
  ultimately have ih: "ms (LStar any_char) s g (Suc i) = map (\<lambda>j. (j, g)) [Suc i ..< Suc (length s)]"
    by (rule Suc.hyps(1))
  have "ms (LStar any_char) s g i = (i, g) # ms (LStar any_char) s g (Suc i)"
    unfolding any_char_def using lt by (subst ms_LStar_Sym_unroll) (simp add: any_one_def)
  also have "\<dots> = map (\<lambda>j. (j, g)) (i # [Suc i ..< Suc (length s)])"
    unfolding ih by simp
  also have "i # [Suc i ..< Suc (length s)] = [i ..< Suc (length s)]"
    using lt by (simp add: upt_conv_Cons del: upt_Suc)
  finally show ?case .
qed

lemma ms_Star_Sym_Seq:
  "ms (Seq (Star (Sym P)) r) s g i =
     concat (map (\<lambda>j. ms r s g j) (rev [i ..< Suc (i + length (takeWhile P (drop i s)))]))"
  unfolding ms.simps(3) ms_Star_Sym by (simp add: comp_def del: upt_Suc)

lemma ms_Grp_LStar_Seq:
  assumes "i \<le> length s"
  shows "ms (Seq (Grp (LStar any_char)) r) s g i =
     concat (map (\<lambda>e. ms r s (Some (i, e)) e) [i ..< Suc (length s)])"
  unfolding ms.simps(3) ms.simps(7) ms_LStar_any [OF assms]
  by (simp add: comp_def del: upt_Suc)

lemma takeWhile_all_then_stop:
  "list_all P ws \<Longrightarrow> rest = [] \<or> \<not> P (hd rest) \<Longrightarrow> takeWhile P (ws @ rest) = ws"
proof (induction ws)
  case Nil
  then show ?case by (cases rest) auto
next
  case (Cons c ws)
  then show ?case by simp
qed

lemma concat_map_skip:
  "(\<And>x. x \<in> set xs \<Longrightarrow> f x = []) \<Longrightarrow> concat (map f (xs @ ys)) = concat (map f ys)"
  by (induction xs) auto

lemma take_drop_of_prefix:
  "j + n \<le> length u + k \<Longrightarrow> take n (drop j (u @ v)) = take n (drop j (u @ take k v))"
proof -
  assume le: "j + n \<le> length u + k"
  have "take n (drop j xs) = take n (drop j (take (j + n) xs))" for xs :: "'a list"
    by (simp add: drop_take)
  moreover have "take (j + n) (u @ v) = take (j + n) (u @ take k v)"
    using le by (auto simp: min_def)
  ultimately show ?thesis by metis
qed

lemma occurs_in_prefix:
  assumes "take (length w) (drop j (u @ v)) = w" and "j + length w \<le> length u + k"
  shows "sublist w (u @ take k v)"
proof -
  from assms(2) have "take (length w) (drop j (u @ v)) = take (length w) (drop j (u @ take k v))"
    by (rule take_drop_of_prefix)
  with assms(1) have "take (length w) (drop j (u @ take k v)) = w" by simp
  then show ?thesis by (rule occurs_at_sublist)
qed

lemma takeWhile_shorter:
  assumes "xs \<noteq> []" and "\<not> P (last xs)"
  shows "length (takeWhile P (xs @ ys)) < length xs"
proof -
  from assms have mem: "last xs \<in> set xs" by simp
  with assms(2) have eq: "takeWhile P (xs @ ys) = takeWhile P xs"
    by (simp add: takeWhile_append1)
  have "takeWhile P xs \<noteq> xs"
    using mem assms(2) by (auto simp: takeWhile_eq_all_conv)
  moreover have "length (takeWhile P xs) \<le> length xs" by (rule length_takeWhile_le)
  ultimately have "length (takeWhile P xs) < length xs"
    by (metis takeWhile_eq_take le_neq_implies_less take_all order_refl)
  with eq show ?thesis by simp
qed

lemma block_tail_closes:
  fixes E :: string
  defines "T \<equiv> Seq (Star (Sym is_space)) (Seq (lit E) Eps)"
  assumes s: "s = front @ ws2 @ E @ post"
    and E: "E \<noteq> []" "\<not> is_space (hd E)"
    and sp2: "list_all is_space ws2"
  shows "\<exists>rest. ms T s h (length front)
     = (length front + length ws2 + length E, h) # rest"
proof -
  let ?b = "length front" and ?c = "length front + length ws2"
  have "drop ?b s = ws2 @ (E @ post)" by (simp add: s)
  moreover have "takeWhile is_space (ws2 @ (E @ post)) = ws2"
    using sp2 E by (intro takeWhile_all_then_stop) (auto simp: neq_Nil_conv)
  ultimately have n: "length (takeWhile is_space (drop ?b s)) = length ws2" by simp
  have at: "take (length E) (drop ?c s) = E" by (simp add: s)
  have "ms T s h ?b = concat (map (\<lambda>p. ms (lit E) s h p) (rev [?b ..< Suc ?c]))"
    unfolding T_def ms_Star_Sym_Seq n ms_Seq_Eps ..
  also have "rev [?b ..< Suc ?c] = ?c # rev [?b ..< ?c]" by simp
  finally have "ms T s h ?b
      = ms (lit E) s h ?c @ concat (map (\<lambda>p. ms (lit E) s h p) (rev [?b ..< ?c]))"
    by simp
  with at show ?thesis by (simp add: ms_lit)
qed

lemma block_tail_open:
  fixes E :: string
  defines "T \<equiv> Seq (Star (Sym is_space)) (Seq (lit E) Eps)"
  assumes s: "s = front @ body @ ws2 @ E @ post"
    and E: "E \<noteq> []"
    and body: "\<not> is_space (last body)"
    and inner: "\<not> sublist E (body @ ws2 @ butlast E)"
    and e: "length front \<le> e" "e < length front + length body"
  shows "ms T s h e = []"
proof -
  let ?a = "length front"
  let ?n = "length (takeWhile is_space (drop e s))"
  have de: "drop e s = drop (e - ?a) body @ (ws2 @ E @ post)"
    using e by (simp add: s)
  have ne: "drop (e - ?a) body \<noteq> []" using e by simp
  have "last (drop (e - ?a) body) = last body" using e by simp
  with body have "\<not> is_space (last (drop (e - ?a) body))" by simp
  with ne takeWhile_shorter [of "drop (e - ?a) body" is_space "ws2 @ E @ post"] de
  have short: "?n < length body - (e - ?a)" by simp
  have none: "ms (lit E) s h p = []" if p: "p \<in> set (rev [e ..< Suc (e + ?n)])" for p
  proof (rule ccontr)
    assume "ms (lit E) s h p \<noteq> []"
    then have at: "take (length E) (drop p s) = E"
      by (simp add: ms_lit split: if_splits)
    from p short e have range: "?a \<le> p" "p < ?a + length body" by auto
    have "drop p s = drop (p - ?a) ((body @ ws2) @ (E @ post))"
      using range by (simp add: s)
    with at have at': "take (length E) (drop (p - ?a) ((body @ ws2) @ (E @ post))) = E" by simp
    have "p - ?a + length E \<le> length (body @ ws2) + (length E - 1)"
      using range E by (cases E) auto
    from occurs_in_prefix [OF at' this]
    have "sublist E ((body @ ws2) @ take (length E - 1) (E @ post))" .
    moreover have "take (length E - 1) (E @ post) = butlast E"
      by (simp add: butlast_conv_take)
    ultimately show False using inner by simp
  qed
  have "ms T s h e = concat (map (\<lambda>p. ms (lit E) s h p) (rev [e ..< Suc (e + ?n)]))"
    unfolding T_def ms_Star_Sym_Seq ms_Seq_Eps ..
  also have "\<dots> = []" using none by (simp del: upt_Suc)
  finally show ?thesis .
qed

lemma fenced_block_match:
  fixes F E :: string
  defines "T \<equiv> Seq (Star (Sym is_space)) (Seq (lit E) Eps)"
  assumes s: "s = pre @ F @ ws1 @ body @ ws2 @ E @ post"
    and E: "E \<noteq> []" "\<not> is_space (hd E)"
    and sp1: "list_all is_space ws1" and sp2: "list_all is_space ws2"
    and body: "body \<noteq> []" "\<not> is_space (hd body)" "\<not> is_space (last body)"
    and inner: "\<not> sublist E (body @ ws2 @ butlast E)"
  shows "\<exists>rest.
     ms (Seq (lit F) (Seq (Star (Sym is_space)) (Seq (Grp (LStar any_char)) T))) s g (length pre)
       = (length pre + length F + length ws1 + length body + length ws2 + length E,
          Some (length pre + length F + length ws1,
                length pre + length F + length ws1 + length body)) # rest"
proof -
  let ?G = "Seq (Grp (LStar any_char)) T"
  let ?i = "length pre"
  let ?a = "length pre + length F + length ws1"
  let ?b = "?a + length body"
  let ?end = "?b + length ws2 + length E"
  let ?front = "pre @ F @ ws1"
  have s1: "s = ?front @ body @ ws2 @ E @ post" by (simp add: s)
  have s2: "s = (?front @ body) @ ws2 @ E @ post" by (simp add: s)
  have la: "length ?front = ?a" by simp
  have lb: "length (?front @ body) = ?b" by simp
  have b_le: "?b \<le> length s" by (simp add: s)
  \<comment> \<open>no closing fence starts before the end of the body\<close>
  have still_open: "ms T s h e = []" if "?a \<le> e" "e < ?b" for h e
    using block_tail_open [OF s1 E(1) body(3) inner, of e h] that
    unfolding T_def la by simp
  \<comment> \<open>it starts right after the body\<close>
  from block_tail_closes [OF s2 E sp2, of "Some (?a, ?b)"]
  obtain rest1 where closes: "ms T s (Some (?a, ?b)) ?b = (?end, Some (?a, ?b)) # rest1"
    unfolding T_def lb by auto
  \<comment> \<open>the group, from the start of the body\<close>
  have a_le: "?a \<le> length s" by (simp add: s)
  have split: "[?a ..< Suc (length s)] = [?a ..< ?b] @ ?b # [Suc ?b ..< Suc (length s)]"
  proof -
    have "[?a ..< ?b + (Suc (length s) - ?b)]
        = [?a ..< ?b] @ [?b ..< ?b + (Suc (length s) - ?b)]"
      by (rule upt_add_eq_append) simp
    moreover have "?b + (Suc (length s) - ?b) = Suc (length s)" using b_le by simp
    moreover have "[?b ..< Suc (length s)] = ?b # [Suc ?b ..< Suc (length s)]"
      using b_le by (simp add: upt_conv_Cons del: upt_Suc)
    ultimately show ?thesis by (simp del: upt_Suc)
  qed
  have "ms ?G s g ?a = concat (map (\<lambda>e. ms T s (Some (?a, e)) e) [?a ..< Suc (length s)])"
    by (rule ms_Grp_LStar_Seq [OF a_le])
  also have "\<dots>
      = concat (map (\<lambda>e. ms T s (Some (?a, e)) e) ([?a ..< ?b] @ ?b # [Suc ?b ..< Suc (length s)]))"
    unfolding split ..
  also have "\<dots> = concat (map (\<lambda>e. ms T s (Some (?a, e)) e) (?b # [Suc ?b ..< Suc (length s)]))"
    by (rule concat_map_skip) (simp add: still_open)
  finally obtain rest2 where group: "ms ?G s g ?a = (?end, Some (?a, ?b)) # rest2"
    using closes by (simp del: upt_Suc)
  \<comment> \<open>the white space before the body is skipped whole\<close>
  have "drop (?i + length F) s = ws1 @ (body @ ws2 @ E @ post)" by (simp add: s)
  moreover have "takeWhile is_space (ws1 @ (body @ ws2 @ E @ post)) = ws1"
    using sp1 body by (intro takeWhile_all_then_stop) (auto simp: neq_Nil_conv)
  ultimately have n: "length (takeWhile is_space (drop (?i + length F) s)) = length ws1" by simp
  have "ms (Seq (Star (Sym is_space)) ?G) s g (?i + length F)
      = concat (map (\<lambda>j. ms ?G s g j) (rev [?i + length F ..< Suc ?a]))"
    unfolding ms_Star_Sym_Seq n by (simp only: add.assoc)
  also have "rev [?i + length F ..< Suc ?a] = ?a # rev [?i + length F ..< ?a]" by simp
  finally obtain rest3 where
    "ms (Seq (Star (Sym is_space)) ?G) s g (?i + length F) = (?end, Some (?a, ?b)) # rest3"
    using group by simp
  moreover have "take (length F) (drop ?i s) = F" by (simp add: s)
  ultimately show ?thesis by (simp add: ms_lit_Seq)
qed

section \<open>The fit scorer\<close>

lemma fence_pattern_unfold:
  "fence_pattern = Seq (lit ''```json'') (Seq (Star (Sym is_space)) (Seq (Grp (LStar any_char))
     (Seq (Star (Sym is_space)) (Seq (lit ''```'') Eps))))"
  by (simp add: fence_pattern_def seqs_def space_def)

lemma no_fence_no_match: "\<not> sublist ''```json'' s \<Longrightarrow> search fence_pattern s = None"
  unfolding fence_pattern_unfold
  by (intro search_none ms_Seq_first_empty ms_lit_absent)

lemma no_brace_no_match: "CHR ''{'' \<notin> set s \<Longrightarrow> search brace_pattern s = None"
proof (rule search_none)
  fix j
  assume "CHR ''{'' \<notin> set s"
  then have "\<not> (j < length s \<and> CHR ''{'' = s ! j)" by (metis nth_mem)
  then show "ms brace_pattern s None j = []"
    by (auto simp: brace_pattern_def seqs_def chr_def ms_Sym_Seq)
qed

lemma parse_reply_no_json: "\<not> json_looking content \<Longrightarrow> parse_reply loads content = Inr unparsed_analysis"
  by (simp add: json_looking_def parse_reply_def no_fence_no_match no_brace_no_match)

lemma substr_middle: "substr (u @ w @ v) (length u) (length u + length w) = w"
  by (simp add: substr_def)

lemma first_fence_found:
  assumes s: "s = pre @ ''```json'' @ ws1 @ body @ ws2 @ ''```'' @ post"
    and first: "\<not> sublist ''```json'' (pre @ ''```jso'')"
    and sp: "list_all is_space ws1" "list_all is_space ws2"
    and body: "body \<noteq> []" "\<not> is_space (hd body)" "\<not> is_space (last body)"
    and inner: "\<not> sublist ''```'' (body @ ws2 @ ''``'')"
  shows "\<exists>m. search fence_pattern s = Some m \<and> group1 s m = body"
proof -
  let ?F = "''```json''" and ?E = "''```''"
  let ?i = "length pre"
  let ?a = "length pre + length ?F + length ws1"
  let ?b = "?a + length body"
  have E: "?E \<noteq> []" "\<not> is_space (hd ?E)" by (simp_all add: is_space_def)
  have inner': "\<not> sublist ?E (body @ ws2 @ butlast ?E)" using inner by simp
  from fenced_block_match [OF s E sp body inner', of None]
  obtain rest where found: "ms fence_pattern s None ?i
      = (?b + length ws2 + length ?E, Some (?a, ?b)) # rest"
    unfolding fence_pattern_unfold by blast
  have before: "ms fence_pattern s None j = []" if "j < ?i" for j
  proof (rule ccontr)
    assume "ms fence_pattern s None j \<noteq> []"
    then have at: "take (length ?F) (drop j (pre @ (?F @ ws1 @ body @ ws2 @ ?E @ post))) = ?F"
      unfolding fence_pattern_unfold ms_lit_Seq s by (simp split: if_splits)
    have "j + length ?F \<le> length pre + 6" using that by simp
    from occurs_in_prefix [OF at this] first show False by simp
  qed
  have "?i \<le> length s" by (simp add: s)
  then have n: "Suc (length s) - 0 = ?i + Suc (length s - ?i)" by arith
  have "search fence_pattern s = search_from fence_pattern s 0 (?i + Suc (length s - ?i))"
    unfolding search_def search_at_def n ..
  also have "\<dots> = search_from fence_pattern s (0 + ?i) (Suc (length s - ?i))"
    by (rule search_from_skip) (simp add: before)
  also have "\<dots> = Some \<lparr>m_start = ?i, m_end = ?b + length ws2 + length ?E, m_cap = Some (?a, ?b)\<rparr>"
    using found by simp
  finally have "search fence_pattern s
      = Some \<lparr>m_start = ?i, m_end = ?b + length ws2 + length ?E, m_cap = Some (?a, ?b)\<rparr>" .
  moreover have "substr s ?a ?b = body"
  proof -
    have "substr ((pre @ ?F @ ws1) @ body @ (ws2 @ ?E @ post)) (length (pre @ ?F @ ws1))
        (length (pre @ ?F @ ws1) + length body) = body"
      by (rule substr_middle)
    moreover have "(pre @ ?F @ ws1) @ body @ (ws2 @ ?E @ post) = s" by (simp add: s)
    moreover have "length (pre @ ?F @ ws1) = ?a" by simp
    ultimately show ?thesis by metis
  qed
  ultimately show ?thesis by (simp add: group1_def)
qed

text \<open>
  Claim C4, as amended. When the call of the service raises, the result is the fallback
  object whose \<^verbatim>\<open>match_percentage\<close> is 0. When the reply has no content that looks like JSON
  (no opening of a fenced JSON block and no opening brace), the result is the fallback object
  whose \<^verbatim>\<open>match_percentage\<close> is 50. When the reply has a fenced JSON block, the block that
  is read runs from the first \<^verbatim>\<open>```json\<close> to the first \<^verbatim>\<open>```\<close> after it: if its contents,
  without the white space around them, are valid JSON, the result is exactly the value they
  decode to.
\<close>

theorem fit_reply_cases:
  "(\<forall>err. llm (prompt_for d r) = Inl err \<longrightarrow> analyze_job_fit loads llm d r = error_analysis)
   \<and> (\<forall>content. llm (prompt_for d r) = Inr content \<and> \<not> json_looking content
        \<longrightarrow> analyze_job_fit loads llm d r = unparsed_analysis)
   \<and> (\<forall>pre ws1 body ws2 post v.
        llm (prompt_for d r) = Inr (pre @ ''```json'' @ ws1 @ body @ ws2 @ ''```'' @ post)
        \<and> \<not> sublist ''```json'' (pre @ ''```jso'')
        \<and> list_all is_space ws1 \<and> list_all is_space ws2
        \<and> body \<noteq> [] \<and> \<not> is_space (hd body) \<and> \<not> is_space (last body)
        \<and> \<not> sublist ''```'' (body @ ws2 @ ''``'')
        \<and> loads body = Some v
        \<longrightarrow> analyze_job_fit loads llm d r = v)
   \<and> match_percentage error_analysis = Some (JInt 0)
   \<and> match_percentage unparsed_analysis = Some (JInt 50)"
proof -
  have raised: "analyze_job_fit loads llm d r = error_analysis"
    if "llm (prompt_for d r) = Inl err" for err
    using that by (simp add: analyze_job_fit_def)
  have plain: "analyze_job_fit loads llm d r = unparsed_analysis"
    if "llm (prompt_for d r) = Inr content" "\<not> json_looking content" for content
    using that by (simp add: analyze_job_fit_def parse_reply_no_json)
  have fenced: "analyze_job_fit loads llm d r = v"
    if reply: "llm (prompt_for d r) = Inr (pre @ ''```json'' @ ws1 @ body @ ws2 @ ''```'' @ post)"
      and first: "\<not> sublist ''```json'' (pre @ ''```jso'')"
      and sp: "list_all is_space ws1" "list_all is_space ws2"
      and body: "body \<noteq> []" "\<not> is_space (hd body)" "\<not> is_space (last body)"
      and inner: "\<not> sublist ''```'' (body @ ws2 @ ''``'')"
      and valid: "loads body = Some v"
    for pre ws1 body ws2 post v
  proof -
    from first_fence_found [OF refl first sp body inner, of post]
    obtain m where "search fence_pattern (pre @ ''```json'' @ ws1 @ body @ ws2 @ ''```'' @ post) = Some m"
      and "group1 (pre @ ''```json'' @ ws1 @ body @ ws2 @ ''```'' @ post) m = body"
      by blast
    with reply valid show ?thesis
      by (simp add: analyze_job_fit_def parse_reply_def)
  qed
  have "match_percentage error_analysis = Some (JInt 0)"
    by (simp add: match_percentage_def error_analysis_def)
  moreover have "match_percentage unparsed_analysis = Some (JInt 50)"
    by (simp add: match_percentage_def unparsed_analysis_def)
  ultimately show ?thesis using raised plain fenced by blast
qed

lemma replying_parse:
  "analyze_job_fit loads (replying content) d r =
     (case parse_reply loads content of Inl err \<Rightarrow> error_analysis | Inr v \<Rightarrow> v)"
  by (simp add: analyze_job_fit_def replying_def)

theorem fit_reply_cases_witness:
  "analyze_job_fit json_loads failing (placeholder_details []) [] = error_analysis
   \<and> analyze_job_fit json_loads (replying ''I cannot help.'') (placeholder_details []) []
       = unparsed_analysis
   \<and> analyze_job_fit json_loads (replying good_reply) (placeholder_details []) []
       = JObj [(''match_percentage'', JInt 85)]"
proof -
  let ?d = "placeholder_details []"
  let ?pre = "''Here you go:'' @ [CHR 0x0A]"
  have a: "analyze_job_fit json_loads failing ?d [] = error_analysis"
    using fit_reply_cases [of failing ?d "[]" json_loads] by (simp add: failing_def)
  have plain: "\<not> json_looking ''I cannot help.''"
    unfolding json_looking_def by code_simp
  have b: "analyze_job_fit json_loads (replying ''I cannot help.'') ?d [] = unparsed_analysis"
    using fit_reply_cases [of "replying ''I cannot help.''" ?d "[]" json_loads] plain
    by (simp add: replying_def)
  have reply: "replying good_reply (prompt_for ?d [])
      = Inr (?pre @ ''```json'' @ [CHR 0x0A] @ good_body @ [CHR 0x0A] @ ''```'' @ [])"
    by (simp add: replying_def good_reply_def)
  have first: "\<not> sublist ''```json'' (?pre @ ''```jso'')" by code_simp
  have sp: "list_all is_space [CHR 0x0A]" by (simp add: is_space_def)
  have body: "good_body \<noteq> []" "\<not> is_space (hd good_body)" "\<not> is_space (last good_body)"
    by (simp_all add: good_body_def is_space_def)
  have inner: "\<not> sublist ''```'' (good_body @ [CHR 0x0A] @ ''``'')"
    unfolding good_body_def by code_simp
  have valid: "json_loads good_body = Some (JObj [(''match_percentage'', JInt 85)])"
    unfolding good_body_def by code_simp
  have c: "analyze_job_fit json_loads (replying good_reply) ?d []
      = JObj [(''match_percentage'', JInt 85)]"
    using fit_reply_cases [of "replying good_reply" ?d "[]" json_loads]
      reply first sp body inner valid
    by blast
  from a b c show ?thesis by simp
qed

text \<open>
  Claim C4 as it is written fails for a fenced block whose valid contents hold three
  back-quotes: the block that is read ends there, what is read is not valid JSON, and the
  result is the fallback object of the failures.
\<close>

lemma tip_body_valid:
  "json_loads tip_body
     = Some (JObj [(''tip'', JStr ''use ``` fences''), (''match_percentage'', JInt 90)])"
  unfolding tip_body_def by code_simp

lemma tip_reply_cut: "parse_reply json_loads tip_reply = Inl JSONDecodeError"
  unfolding tip_reply_def tip_body_def by code_simp

theorem fenced_reply_cut_short:
  "json_loads tip_body
     = Some (JObj [(''tip'', JStr ''use ``` fences''), (''match_percentage'', JInt 90)])
   \<and> analyze_job_fit json_loads (replying tip_reply) (placeholder_details []) [] = error_analysis
   \<and> error_analysis \<noteq> JObj [(''tip'', JStr ''use ``` fences''), (''match_percentage'', JInt 90)]"
  by (simp add: tip_body_valid replying_parse tip_reply_cut error_analysis_def)

lemma brace_pattern_unfold:
  "brace_pattern
     = Seq (Sym ((=) CHR ''{'')) (Seq (Star (Sym any_one)) (Seq (Sym ((=) CHR ''}'')) Eps))"
  by (simp add: brace_pattern_def seqs_def chr_def any_char_def)

lemma takeWhile_any_one: "takeWhile any_one xs = xs"
  by (induction xs) (simp_all add: any_one_def)

lemma first_brace_found:
  assumes s: "s = pre @ ''{'' @ mid @ ''}'' @ post"
    and first: "CHR ''{'' \<notin> set pre"
    and final: "CHR ''}'' \<notin> set post"
  shows "\<exists>m. search brace_pattern s = Some m \<and> group0 s m = ''{'' @ mid @ ''}''"
proof -
  let ?i = "length pre"
  let ?j = "length pre + 1 + length mid"
  let ?C = "Seq (Sym ((=) CHR ''}'')) Eps"
  have s1: "s = (pre @ ''{'' @ mid) @ CHR ''}'' # post" by (simp add: s)
  have lj: "length (pre @ ''{'' @ mid) = ?j" by simp
  have l2: "length (pre @ ''{'' @ mid @ ''}'') = Suc ?j" by simp
  have len: "length s = Suc ?j + length post" by (simp add: s)
  have at_i: "?i < length s" "s ! ?i = CHR ''{''" by (simp_all add: s)
  have at_j: "?j < length s" "s ! ?j = CHR ''}''"
    using nth_append_length [of "pre @ ''{'' @ mid" "CHR ''}''" post] len
    unfolding lj s1 [symmetric] by simp_all
  have close: "ms ?C s g p = (if p < length s \<and> CHR ''}'' = s ! p then [(Suc p, g)] else [])"
    for g p
    by (simp add: ms_Sym_Seq ms.simps(1))
  have after: "ms ?C s g p = []" if p: "p \<in> set (rev [Suc ?j ..< Suc (length s)])" for g p
  proof (cases "p < length s")
    case True
    from p have "Suc ?j \<le> p" by (simp del: upt_Suc)
    have "s ! p = ((pre @ ''{'' @ mid @ ''}'') @ post) ! p" by (simp add: s)
    also have "\<dots> = post ! (p - Suc ?j)"
      using \<open>Suc ?j \<le> p\<close> by (simp only: nth_append l2) simp
    finally have "s ! p = post ! (p - Suc ?j)" .
    moreover from True len \<open>Suc ?j \<le> p\<close> have "p - Suc ?j < length post" by simp
    ultimately have "s ! p \<in> set post" by simp
    with final have "CHR ''}'' \<noteq> s ! p" by metis
    then show ?thesis by (simp add: close)
  next
    case False
    then show ?thesis by (simp add: close)
  qed
  have bound: "Suc ?i + length (takeWhile any_one (drop (Suc ?i) s)) = length s"
    using at_i(1) by (simp add: takeWhile_any_one)
  have split: "[Suc ?i ..< Suc (length s)] = [Suc ?i ..< ?j] @ ?j # [Suc ?j ..< Suc (length s)]"
  proof -
    have "[Suc ?i ..< ?j + (Suc (length s) - ?j)]
        = [Suc ?i ..< ?j] @ [?j ..< ?j + (Suc (length s) - ?j)]"
      by (rule upt_add_eq_append) simp
    moreover have "?j + (Suc (length s) - ?j) = Suc (length s)" using at_j(1) by simp
    moreover have "[?j ..< Suc (length s)] = ?j # [Suc ?j ..< Suc (length s)]"
      using at_j(1) by (simp add: upt_conv_Cons del: upt_Suc)
    ultimately show ?thesis by (simp del: upt_Suc)
  qed
  have "ms (Seq (Star (Sym any_one)) ?C) s None (Suc ?i)
      = concat (map (\<lambda>p. ms ?C s None p) (rev [Suc ?i ..< Suc (length s)]))"
    unfolding ms_Star_Sym_Seq bound ..
  also have "rev [Suc ?i ..< Suc (length s)]
      = rev [Suc ?j ..< Suc (length s)] @ (?j # rev [Suc ?i ..< ?j])"
    unfolding split by simp
  also have "concat (map (\<lambda>p. ms ?C s None p)
        (rev [Suc ?j ..< Suc (length s)] @ (?j # rev [Suc ?i ..< ?j])))
      = concat (map (\<lambda>p. ms ?C s None p) (?j # rev [Suc ?i ..< ?j]))"
    by (rule concat_map_skip) (rule after)
  finally obtain rest where tail:
    "ms (Seq (Star (Sym any_one)) ?C) s None (Suc ?i) = (Suc ?j, None) # rest"
    using at_j by (simp add: close)
  have found: "ms brace_pattern s None ?i = (Suc ?j, None) # rest"
    unfolding brace_pattern_unfold ms_Sym_Seq using at_i tail by simp
  have before: "ms brace_pattern s None p = []" if "p < ?i" for p
  proof -
    from that have "s ! p = pre ! p" by (simp add: s nth_append)
    with that have "s ! p \<in> set pre" by simp
    with first have "CHR ''{'' \<noteq> s ! p" by metis
    then show ?thesis unfolding brace_pattern_unfold ms_Sym_Seq by simp
  qed
  have "?i \<le> length s" by (simp add: s)
  then have n: "Suc (length s) - 0 = ?i + Suc (length s - ?i)" by arith
  have "search brace_pattern s = search_from brace_pattern s 0 (?i + Suc (length s - ?i))"
    unfolding search_def search_at_def n ..
  also have "\<dots> = search_from brace_pattern s (0 + ?i) (Suc (length s - ?i))"
    by (rule search_from_skip) (simp add: before)
  also have "\<dots> = Some \<lparr>m_start = ?i, m_end = Suc ?j, m_cap = None\<rparr>"
    using found by simp
  finally have "search brace_pattern s = Some \<lparr>m_start = ?i, m_end = Suc ?j, m_cap = None\<rparr>" .
  moreover have "substr s ?i (Suc ?j) = ''{'' @ mid @ ''}''"
  proof -
    have "substr (pre @ (''{'' @ mid @ ''}'') @ post) (length pre)
        (length pre + length (''{'' @ mid @ ''}'')) = ''{'' @ mid @ ''}''"
      by (rule substr_middle)
    moreover have "pre @ (''{'' @ mid @ ''}'') @ post = s" by (simp add: s)
    moreover have "length pre + length (''{'' @ mid @ ''}'') = Suc ?j" by simp
    ultimately show ?thesis by metis
  qed
  ultimately show ?thesis by (simp add: group0_def)
qed

text \<open>
  Claim C9, as amended. The analysis that is returned for a reply is one of the two fallback
  objects, or the value that \<^verbatim>\<open>json.loads\<close> gives for the text taken out of the reply: the
  group of the fenced-block pattern when that pattern matches, otherwise the match of the
  brace pattern. Whenever \<^verbatim>\<open>json.loads\<close> gives a value for that text, this value is returned
  as it is. For a reply with a fenced block the text is the contents of the first block; for
  a reply without one it runs from the first opening brace to the last closing brace.
  Neither the range nor the type of \<^verbatim>\<open>match_percentage\<close> is checked: the field is what the
  text of the reply gives.
\<close>

theorem analysis_is_parsed_value:
  "(\<forall>content. llm (prompt_for d r) = Inr content
      \<longrightarrow> analyze_job_fit loads llm d r = error_analysis
        \<or> analyze_job_fit loads llm d r = unparsed_analysis
        \<or> (\<exists>m. search fence_pattern content = Some m
              \<and> loads (group1 content m) = Some (analyze_job_fit loads llm d r))
        \<or> (\<exists>m. search fence_pattern content = None \<and> search brace_pattern content = Some m
              \<and> loads (group0 content m) = Some (analyze_job_fit loads llm d r)))
   \<and> (\<forall>content m v. llm (prompt_for d r) = Inr content
        \<and> search fence_pattern content = Some m \<and> loads (group1 content m) = Some v
      \<longrightarrow> analyze_job_fit loads llm d r = v)
   \<and> (\<forall>content m v. llm (prompt_for d r) = Inr content
        \<and> search fence_pattern content = None \<and> search brace_pattern content = Some m
        \<and> loads (group0 content m) = Some v
      \<longrightarrow> analyze_job_fit loads llm d r = v)
   \<and> (\<forall>pre ws1 body ws2 post v.
        llm (prompt_for d r) = Inr (pre @ ''```json'' @ ws1 @ body @ ws2 @ ''```'' @ post)
        \<and> \<not> sublist ''```json'' (pre @ ''```jso'')
        \<and> list_all is_space ws1 \<and> list_all is_space ws2
        \<and> body \<noteq> [] \<and> \<not> is_space (hd body) \<and> \<not> is_space (last body)
        \<and> \<not> sublist ''```'' (body @ ws2 @ ''``'')
        \<and> loads body = Some v
      \<longrightarrow> analyze_job_fit loads llm d r = v
        \<and> match_percentage (analyze_job_fit loads llm d r) = match_percentage v)
   \<and> (\<forall>pre mid post v.
        llm (prompt_for d r) = Inr (pre @ ''{'' @ mid @ ''}'' @ post)
        \<and> \<not> sublist ''```json'' (pre @ ''{'' @ mid @ ''}'' @ post)
        \<and> CHR ''{'' \<notin> set pre \<and> CHR ''}'' \<notin> set post
        \<and> loads (''{'' @ mid @ ''}'') = Some v
      \<longrightarrow> analyze_job_fit loads llm d r = v
        \<and> match_percentage (analyze_job_fit loads llm d r) = match_percentage v)"
proof -
  have known: "analyze_job_fit loads llm d r = error_analysis
        \<or> analyze_job_fit loads llm d r = unparsed_analysis
        \<or> (\<exists>m. search fence_pattern content = Some m
              \<and> loads (group1 content m) = Some (analyze_job_fit loads llm d r))
        \<or> (\<exists>m. search fence_pattern content = None \<and> search brace_pattern content = Some m
              \<and> loads (group0 content m) = Some (analyze_job_fit loads llm d r))"
    if "llm (prompt_for d r) = Inr content" for content
    using that
    by (auto simp: analyze_job_fit_def parse_reply_def split: option.splits)
  have fence: "analyze_job_fit loads llm d r = v"
    if "llm (prompt_for d r) = Inr content" "search fence_pattern content = Some m"
      "loads (group1 content m) = Some v" for content m v
    using that by (simp add: analyze_job_fit_def parse_reply_def)
  have brace: "analyze_job_fit loads llm d r = v"
    if "llm (prompt_for d r) = Inr content" "search fence_pattern content = None"
      "search brace_pattern content = Some m" "loads (group0 content m) = Some v" for content m v
    using that by (simp add: analyze_job_fit_def parse_reply_def)
  have fenced: "analyze_job_fit loads llm d r = v
        \<and> match_percentage (analyze_job_fit loads llm d r) = match_percentage v"
    if reply: "llm (prompt_for d r) = Inr (pre @ ''```json'' @ ws1 @ body @ ws2 @ ''```'' @ post)"
      and first: "\<not> sublist ''```json'' (pre @ ''```jso'')"
      and sp: "list_all is_space ws1" "list_all is_space ws2"
      and body: "body \<noteq> []" "\<not> is_space (hd body)" "\<not> is_space (last body)"
      and inner: "\<not> sublist ''```'' (body @ ws2 @ ''``'')"
      and valid: "loads body = Some v"
    for pre ws1 body ws2 post v
  proof -
    from first_fence_found [OF refl first sp body inner, of post]
    obtain m where "search fence_pattern (pre @ ''```json'' @ ws1 @ body @ ws2 @ ''```'' @ post) = Some m"
      and "group1 (pre @ ''```json'' @ ws1 @ body @ ws2 @ ''```'' @ post) m = body"
      by blast
    with reply valid fence [OF reply, of m v] show ?thesis by simp
  qed
  have braced: "analyze_job_fit loads llm d r = v
        \<and> match_percentage (analyze_job_fit loads llm d r) = match_percentage v"
    if reply: "llm (prompt_for d r) = Inr (pre @ ''{'' @ mid @ ''}'' @ post)"
      and plain: "\<not> sublist ''```json'' (pre @ ''{'' @ mid @ ''}'' @ post)"
      and first: "CHR ''{'' \<notin> set pre" and final: "CHR ''}'' \<notin> set post"
      and valid: "loads (''{'' @ mid @ ''}'') = Some v"
    for pre mid post v
  proof -
    from first_brace_found [OF refl first final, of mid]
    obtain m where "search brace_pattern (pre @ ''{'' @ mid @ ''}'' @ post) = Some m"
      and "group0 (pre @ ''{'' @ mid @ ''}'' @ post) m = ''{'' @ mid @ ''}''"
      by blast
    with valid brace [OF reply no_fence_no_match [OF plain], of m v] show ?thesis by simp
  qed
  from known fence brace fenced braced show ?thesis by blast
qed

theorem analysis_is_parsed_value_witness:
  "analyze_job_fit json_loads (replying high_reply) (placeholder_details []) []
     = JObj [(''match_percentage'', JInt 150)]
   \<and> analyze_job_fit json_loads (replying bare_reply) (placeholder_details []) []
     = JObj [(''match_percentage'', JInt (- 5))]
   \<and> match_percentage (analyze_job_fit json_loads (replying bare_reply) (placeholder_details []) [])
     = Some (JInt (- 5))"
proof -
  let ?d = "placeholder_details []"
  note t1 = analysis_is_parsed_value [of "replying high_reply" ?d "[]" json_loads]
  note t2 = analysis_is_parsed_value [of "replying bare_reply" ?d "[]" json_loads]
  let ?body = \<open>''{"match_percentage": 150}''\<close>
  let ?mid = \<open>''"match_percentage": -5''\<close>
  have reply1: "replying high_reply (prompt_for ?d [])
      = Inr ([] @ ''```json'' @ [CHR 0x0A] @ ?body @ [CHR 0x0A] @ ''```'' @ [])"
    by (simp add: replying_def high_reply_def)
  have first1: "\<not> sublist ''```json'' ([] @ ''```jso'')" by code_simp
  have sp: "list_all is_space [CHR 0x0A]" by (simp add: is_space_def)
  have body: "?body \<noteq> []" "\<not> is_space (hd ?body)" "\<not> is_space (last ?body)"
    by (simp_all add: is_space_def)
  have inner: "\<not> sublist ''```'' (?body @ [CHR 0x0A] @ ''``'')" by code_simp
  have valid1: "json_loads ?body = Some (JObj [(''match_percentage'', JInt 150)])" by code_simp
  have a: "analyze_job_fit json_loads (replying high_reply) ?d []
      = JObj [(''match_percentage'', JInt 150)]"
    using t1 reply1 first1 sp body inner valid1 by blast
  have reply2: "replying bare_reply (prompt_for ?d [])
      = Inr (''My estimate: '' @ ''{'' @ ?mid @ ''}'' @ '' overall.'')"
    by (simp add: replying_def bare_reply_def)
  have plain: "\<not> sublist ''```json'' (''My estimate: '' @ ''{'' @ ?mid @ ''}'' @ '' overall.'')"
    by code_simp
  have first2: "CHR ''{'' \<notin> set ''My estimate: ''" by simp
  have final2: "CHR ''}'' \<notin> set '' overall.''" by simp
  have valid2: "json_loads (''{'' @ ?mid @ ''}'') = Some (JObj [(''match_percentage'', JInt (- 5))])"
    by code_simp
  have b: "analyze_job_fit json_loads (replying bare_reply) ?d []
        = JObj [(''match_percentage'', JInt (- 5))]
      \<and> match_percentage (analyze_job_fit json_loads (replying bare_reply) ?d [])
        = match_percentage (JObj [(''match_percentage'', JInt (- 5))])"
    using t2 reply2 plain first2 final2 valid2 by blast
  from a b show ?thesis by (simp add: match_percentage_def)
qed

text \<open>
  Claim C9 as it is written fails for a reply whose JSON gives a percentage above 100: it is
  returned as it is.
\<close>

lemma high_reply_parsed:
  "parse_reply json_loads high_reply = Inr (JObj [(''match_percentage'', JInt 150)])"
  unfolding high_reply_def by code_simp

theorem analysis_out_of_range:
  "analyze_job_fit json_loads (replying high_reply) (placeholder_details []) []
     = JObj [(''match_percentage'', JInt 150)]
   \<and> match_percentage (analyze_job_fit json_loads (replying high_reply) (placeholder_details []) [])
     = Some (JInt 150)
   \<and> \<not> (150 :: int) \<le> 100"
  by (simp add: replying_parse high_reply_parsed match_percentage_def)

section \<open>The salary\<close>










section \<open>The job type\<close>


























section \<open>The requirements found by keyword\<close>

lemma repeated_no_requirements: "extract_job_requirements bare_soup repeated_text = []"
  by code_simp

lemma repeated_fallback:
  "fallback_requirements sales_url repeated_text
     = [''Experience in sales.'', ''Experience in sales.'']"
  by code_simp

lemma sales_title:
  "page_title (titled_soup ''Sales Associate - Acme'') = (''Sales Associate'', ''Acme'')"
  by code_simp

lemma repeated_extract:
  "extract_with_recovery repeated_env sales_url
     = ([Get sales_url (hd user_agents), Search ''Sales Associate job description Acme'' 3],
        Inr (\<lparr>page_soup = titled_soup ''Sales Associate - Acme'', page_text = repeated_text\<rparr>,
             \<lparr>d_description = extract_job_description (titled_soup ''Sales Associate - Acme'')
                repeated_text,
              d_requirements = [],
              d_log = [Get sales_url (hd user_agents),
                Search ''Sales Associate job description Acme'' 3]\<rparr>))"
proof -
  have f: "fetch repeated_env sales_url []
      = ([Get sales_url (hd user_agents)], Inr \<lparr>status_code = 200, body_text = ''S''\<rparr>)"
    by (simp add: fetch_def repeated_env_def web_env_def raise_for_status_def)
  have r: "render repeated_env ''S''
      = Inr \<lparr>page_soup = titled_soup ''Sales Associate - Acme'', page_text = repeated_text\<rparr>"
    by (simp add: repeated_env_def web_env_def)
  have q: "extract_job_requirements (titled_soup ''Sales Associate - Acme'') repeated_text = []"
    by (metis requirements_ignore_soup repeated_no_requirements)
  have s: "ddgs_text repeated_env log query n = Inl SearchError" for log query n
    by (simp add: repeated_env_def web_env_def)
  show ?thesis
    by (simp add: extract_with_recovery_def f r q recover_def sales_title recovery_query_def s
        Let_def)
qed

lemma alt_step_requirements_length:
  "length (d_requirements st) \<le> 10 \<Longrightarrow> length (d_requirements (fst (alt_step e res st))) \<le> 10"
  using extract_job_requirements_distinct
  by (auto simp: alt_step_def Let_def split: sum.splits)

lemma alt_loop_requirements_length:
  "length (d_requirements st) \<le> 10 \<Longrightarrow> length (d_requirements (alt_loop e rs st)) \<le> 10"
proof (induction rs arbitrary: st)
  case Nil
  then show ?case by simp
next
  case (Cons res rs)
  obtain st1 stop where step: "alt_step e res st = (st1, stop)" by (cases "alt_step e res st")
  with alt_step_requirements_length [OF Cons.prems, of e res]
  have "length (d_requirements st1) \<le> 10" by simp
  with Cons.IH [of st1] step show ?case by simp
qed

lemma recover_requirements_length:
  "length (d_requirements st) \<le> 10 \<Longrightarrow> length (d_requirements (recover e sp st)) \<le> 10"
  by (auto simp: recover_def Let_def alt_loop_requirements_length split: prod.splits sum.splits)

lemma extracted_draft:
  assumes "extract_with_recovery e url = (log, Inr (pg, st))"
  shows "st = recover e (page_soup pg)
      \<lparr>d_description = extract_job_description (page_soup pg) (page_text pg),
       d_requirements = extract_job_requirements (page_soup pg) (page_text pg),
       d_log = fst (fetch e url [])\<rparr>"
  using assms by (auto simp: extract_with_recovery_def Let_def split: prod.splits sum.splits)

lemma requirements_bounded: "length (requirements (get_job_details e url)) \<le> 10"
proof (cases "extract_with_recovery e url")
  case (Pair log outcome)
  show ?thesis
  proof (cases outcome)
    case (Inl err)
    with Pair show ?thesis
      by (simp add: get_job_details_def get_job_details_log_def placeholder_details_def)
  next
    case (Inr found)
    obtain pg st where found: "found = (pg, st)" by (cases found)
    from Pair Inr found have "length (d_requirements st) \<le> 10"
      using extracted_draft [of e url log pg st] recover_requirements_length
        extract_job_requirements_distinct
      by simp
    with Pair Inr found fallback_requirements_length show ?thesis
      by (simp add: get_job_details_def get_job_details_log_def finish_details_def Let_def)
  qed
qed

lemma benefits_bounded:
  "distinct (benefits (get_job_details e url)) \<and> length (benefits (get_job_details e url)) \<le> 8"
proof (cases "extract_with_recovery e url")
  case (Pair log outcome)
  show ?thesis
  proof (cases outcome)
    case (Inl err)
    with Pair show ?thesis
      by (simp add: get_job_details_def get_job_details_log_def placeholder_details_def)
  next
    case (Inr found)
    obtain pg st where found: "found = (pg, st)" by (cases found)
    with Pair Inr extract_benefits_distinct [of "page_text pg"] show ?thesis
      by (simp add: get_job_details_def get_job_details_log_def finish_details_def Let_def)
  qed
qed

text \<open>
  Claim C3. The requirements that \<open>extract_job_requirements\<close> gives and the benefits that
  \<open>extract_benefits\<close> gives have no duplicates, and the lists of a record are not longer than
  10 and 8 entries. The requirements found by keyword in \<open>get_job_details\<close>, when the
  extraction and the other sources gave none, are cut to 10 entries and not freed of
  duplicates: a page that says the same sentence in two paragraphs gives that sentence
  twice.
\<close>

theorem fallback_requirements_repeat:
  "requirements (get_job_details repeated_env sales_url)
     = [''Experience in sales.'', ''Experience in sales.'']
   \<and> \<not> distinct (requirements (get_job_details repeated_env sales_url))
   \<and> distinct (extract_job_requirements sp text_content)
   \<and> length (requirements (get_job_details e url)) \<le> 10
   \<and> distinct (benefits (get_job_details e url))
   \<and> length (benefits (get_job_details e url)) \<le> 8"
proof -
  have "requirements (get_job_details repeated_env sales_url)
      = [''Experience in sales.'', ''Experience in sales.'']"
    by (simp add: get_job_details_def get_job_details_log_def repeated_extract
        finish_details_def Let_def repeated_fallback)
  with extract_job_requirements_distinct [of sp text_content] requirements_bounded [of e url]
    benefits_bounded [of e url]
  show ?thesis by simp
qed

section \<open>The fields of the record\<close>
























end
